theory Spec2Isabelle
  imports Complex_Main "HOL-Library.Log_Nat"
begin

section \<open>JavaScript numbers and strings used by the route loaders\<close>

text \<open>
  The two route modules (\<^verbatim>\<open>($lang).collections.$collectionHandle.tsx\<close> and
  \<^verbatim>\<open>($lang).products.$productHandle.tsx\<close>) are plain JavaScript underneath, so the
  embedding starts with the built-ins they call: Number arithmetic, \<^verbatim>\<open>Number(string)\<close>,
  the string conversion of a Number inside a template literal, and \<^verbatim>\<open>toFixed\<close>.

  A Number is an IEEE binary64 value. A finite value is carried as the rational it denotes;
  the two infinities and NaN are separate constructors. Zero carries no sign: the code
  modelled here only tests zeros for truthiness, compares them with \<^verbatim>\<open>> 0\<close> and prints
  them, and none of these distinguishes \<^verbatim>\<open>-0\<close> from \<^verbatim>\<open>+0\<close>; the only divisor in the
  program is an array length times five, which is never \<^verbatim>\<open>-0\<close>.

  A string is a list of 8-bit characters, read as the UTF-16 code units below 256.
\<close>

datatype jsnum = Fin rat | PInf | NInf | NaN

definition pow2 :: "int \<Rightarrow> rat" where
  "pow2 e = (if 0 \<le> e then 2 ^ nat e else 1 / 2 ^ nat (- e))"

definition pow10 :: "int \<Rightarrow> rat" where
  "pow10 e = (if 0 \<le> e then 10 ^ nat e else 1 / 10 ^ nat (- e))"

text \<open>\<open>ilog2 a\<close> is \<open>\<lfloor>log\<^sub>2 a\<rfloor>\<close> for a positive rational \<open>a\<close>.\<close>

definition ilog2 :: "rat \<Rightarrow> int" where
  "ilog2 a = (if 1 \<le> a then bitlen \<lfloor>a\<rfloor> - 1 else - bitlen (\<lceil>1 / a\<rceil> - 1))"

definition round_half_even :: "rat \<Rightarrow> int" where
  "round_half_even q =
     (let f = \<lfloor>q\<rfloor>; r = q - of_int f
      in if r < 1 / 2 then f else if 1 / 2 < r then f + 1 else if even f then f else f + 1)"

text \<open>
  Rounding of an exact result to binary64, round-to-nearest, ties-to-even: 53 significant
  bits, smallest exponent \<open>-1022\<close> (below it the spacing stays \<open>2\<^sup>-\<^sup>1\<^sup>0\<^sup>7\<^sup>4\<close>), and overflow
  to an infinity once the rounded magnitude reaches \<open>2\<^sup>1\<^sup>0\<^sup>2\<^sup>4\<close>.
\<close>

definition fl :: "rat \<Rightarrow> jsnum" where
  "fl q =
     (if q = 0 then Fin 0
      else let a = \<bar>q\<bar>;
               e = max (ilog2 a) (- 1022) - 52;
               m = round_half_even (a / pow2 e);
               r = of_int m * pow2 e
           in if 2 ^ 1024 \<le> r then (if 0 < q then PInf else NInf)
              else Fin (if 0 < q then r else - r))"

fun js_add :: "jsnum \<Rightarrow> jsnum \<Rightarrow> jsnum" where
  "js_add NaN _ = NaN"
| "js_add _ NaN = NaN"
| "js_add PInf NInf = NaN"
| "js_add NInf PInf = NaN"
| "js_add PInf _ = PInf"
| "js_add _ PInf = PInf"
| "js_add NInf _ = NInf"
| "js_add _ NInf = NInf"
| "js_add (Fin a) (Fin b) = fl (a + b)"

definition inf_of_sign :: "rat \<Rightarrow> jsnum" where
  "inf_of_sign s = (if s = 0 then NaN else if 0 < s then PInf else NInf)"

fun js_mul :: "jsnum \<Rightarrow> jsnum \<Rightarrow> jsnum" where
  "js_mul NaN _ = NaN"
| "js_mul _ NaN = NaN"
| "js_mul PInf PInf = PInf"
| "js_mul PInf NInf = NInf"
| "js_mul NInf PInf = NInf"
| "js_mul NInf NInf = PInf"
| "js_mul PInf (Fin b) = inf_of_sign b"
| "js_mul NInf (Fin b) = inf_of_sign (- b)"
| "js_mul (Fin a) PInf = inf_of_sign a"
| "js_mul (Fin a) NInf = inf_of_sign (- a)"
| "js_mul (Fin a) (Fin b) = fl (a * b)"

text \<open>Division; a zero divisor is \<^verbatim>\<open>+0\<close>.\<close>

fun js_div :: "jsnum \<Rightarrow> jsnum \<Rightarrow> jsnum" where
  "js_div NaN _ = NaN"
| "js_div _ NaN = NaN"
| "js_div PInf (Fin b) = (if 0 \<le> b then PInf else NInf)"
| "js_div NInf (Fin b) = (if 0 \<le> b then NInf else PInf)"
| "js_div PInf _ = NaN"
| "js_div NInf _ = NaN"
| "js_div (Fin a) PInf = Fin 0"
| "js_div (Fin a) NInf = Fin 0"
| "js_div (Fin a) (Fin b) = (if b = 0 then inf_of_sign a else fl (a / b))"

text \<open>\<^verbatim>\<open>x > 0\<close> and the truthiness of a Number.\<close>

fun js_gt0 :: "jsnum \<Rightarrow> bool" where
  "js_gt0 (Fin a) = (0 < a)"
| "js_gt0 PInf = True"
| "js_gt0 NInf = False"
| "js_gt0 NaN = False"

fun truthy :: "jsnum \<Rightarrow> bool" where
  "truthy (Fin a) = (a \<noteq> 0)"
| "truthy NaN = False"
| "truthy _ = True"

subsection \<open>Decimal digits\<close>

definition digit_char :: "int \<Rightarrow> char" where
  "digit_char d = ''0123456789'' ! nat d"

text \<open>The decimal digits of a non-negative integer, most significant first.\<close>

function digits_of :: "int \<Rightarrow> string" where
  "digits_of n = (if n < 10 then [digit_char n] else digits_of (n div 10) @ [digit_char (n mod 10)])"
  by pat_completeness auto
termination
  by (relation "measure nat") auto

declare digits_of.simps [simp del]

text \<open>\<open>ilog10 a\<close> is \<open>\<lfloor>log\<^sub>1\<^sub>0 a\<rfloor>\<close> for a positive rational \<open>a\<close>.\<close>

definition ilog10 :: "rat \<Rightarrow> int" where
  "ilog10 a =
     (if 1 \<le> a then int (length (digits_of \<lfloor>a\<rfloor>)) - 1
      else - int (length (digits_of (\<lceil>1 / a\<rceil> - 1))))"

subsection \<open>Number::toString, radix 10\<close>

text \<open>
  For a finite positive \<open>x\<close> the specification asks for integers \<open>n\<close>, \<open>k\<close>, \<open>s\<close> with
  \<open>10\<^sup>k\<^sup>-\<^sup>1 \<le> s < 10\<^sup>k\<close>, the binary64 value of \<open>s \<times> 10\<^sup>n\<^sup>-\<^sup>k\<close> equal to \<open>x\<close> and \<open>k\<close> as small
  as possible. \<open>find_digits\<close> tries \<open>k = 1, 2, \<dots>\<close> in turn; for each \<open>k\<close> the only
  candidates are the two multiples of \<open>10\<^sup>n\<^sup>-\<^sup>k\<close> around \<open>x\<close>, and of two that both work the
  one closer to \<open>x\<close> is taken. Seventeen digits always identify a binary64 value.
\<close>

fun find_digits :: "rat \<Rightarrow> int \<Rightarrow> nat list \<Rightarrow> (int \<times> int) option" where
  "find_digits x n0 [] = None"
| "find_digits x n0 (k # ks) =
     (let p = n0 - int k;
          lo = \<lfloor>x / pow10 p\<rfloor>;
          hi = lo + 1;
          okl = (fl (of_int lo * pow10 p) = Fin x);
          okh = (fl (of_int hi * pow10 p) = Fin x);
          up = (if hi = 10 ^ k then (1, n0 + 1) else (hi, n0))
      in if okl \<and> okh then
           (if x - of_int lo * pow10 p \<le> of_int hi * pow10 p - x then Some (lo, n0) else Some up)
         else if okl then Some (lo, n0)
         else if okh then Some up
         else find_digits x n0 ks)"

definition shortest_digits :: "rat \<Rightarrow> string \<times> int" where
  "shortest_digits x =
     (let n0 = ilog10 x + 1
      in case find_digits x n0 [1 ..< 18] of
           Some (s, n) \<Rightarrow> (digits_of s, n)
         | None \<Rightarrow> (digits_of \<lfloor>x / pow10 (n0 - 17)\<rfloor>, n0))"

definition format_digits :: "string \<Rightarrow> int \<Rightarrow> string" where
  "format_digits ds n =
     (let k = int (length ds)
      in if k \<le> n \<and> n \<le> 21 then ds @ replicate (nat (n - k)) CHR ''0''
         else if 0 < n \<and> n \<le> 21 then take (nat n) ds @ ''.'' @ drop (nat n) ds
         else if - 6 < n \<and> n \<le> 0 then ''0.'' @ replicate (nat (- n)) CHR ''0'' @ ds
         else (if k = 1 then ds else take 1 ds @ ''.'' @ drop 1 ds)
              @ ''e'' @ (if 0 < n - 1 then ''+'' else ''-'') @ digits_of \<bar>n - 1\<bar>)"

fun Number_toString :: "jsnum \<Rightarrow> string" where
  "Number_toString NaN = ''NaN''"
| "Number_toString PInf = ''Infinity''"
| "Number_toString NInf = ''-Infinity''"
| "Number_toString (Fin q) =
     (if q = 0 then ''0''
      else (if q < 0 then ''-'' else '''')
           @ (case shortest_digits \<bar>q\<bar> of (ds, n) \<Rightarrow> format_digits ds n))"

declare Number_toString.simps(4) [simp del]

subsection \<open>Number.prototype.toFixed\<close>

definition toFixed :: "nat \<Rightarrow> jsnum \<Rightarrow> string" where
  "toFixed f x =
     (case x of
        Fin q \<Rightarrow>
          if 10 ^ 21 \<le> \<bar>q\<bar> then Number_toString x
          else let n = \<lfloor>\<bar>q\<bar> * 10 ^ f + 1 / 2\<rfloor>;
                   m = digits_of n;
                   m = (if f \<noteq> 0
                        then let m1 = (if length m \<le> f
                                       then replicate (f + 1 - length m) CHR ''0'' @ m else m);
                                 k = length m1
                             in take (k - f) m1 @ ''.'' @ drop (k - f) m1
                        else m)
               in (if q < 0 then ''-'' else '''') @ m
      | _ \<Rightarrow> Number_toString x)"

subsection \<open>Number(string)\<close>

text \<open>
  \<^verbatim>\<open>Number(s)\<close> on a string is StringToNumber: surrounding white space is stripped, the
  empty string is \<open>0\<close>, a radix prefix \<^verbatim>\<open>0x\<close>, \<^verbatim>\<open>0o\<close> or \<^verbatim>\<open>0b\<close> takes unsigned digits of
  that radix, anything else must be an optionally signed \<^verbatim>\<open>Infinity\<close> or decimal literal
  (digits, optional fraction, optional exponent), and every other string is NaN. The
  mathematical value is rounded to binary64.
\<close>

definition is_ws :: "char \<Rightarrow> bool" where
  "is_ws c = (c \<in> set [CHR 0x09, CHR 0x0A, CHR 0x0B, CHR 0x0C, CHR 0x0D, CHR 0x20, CHR 0xA0])"

definition str_trim :: "string \<Rightarrow> string" where
  "str_trim s = rev (dropWhile is_ws (rev (dropWhile is_ws s)))"

definition digit_val :: "char \<Rightarrow> int option" where
  "digit_val c = map_of (zip ''0123456789abcdef'' [0, 1, 2, 3, 4, 5, 6, 7, 8, 9, 10, 11, 12, 13, 14, 15]
                         @ zip ''ABCDEF'' [10, 11, 12, 13, 14, 15]) c"

definition is_digit :: "char \<Rightarrow> bool" where
  "is_digit c = (c \<in> set ''0123456789'')"

definition parse_digits :: "int \<Rightarrow> string \<Rightarrow> int option" where
  "parse_digits radix s =
     (if s = [] then None
      else foldl (\<lambda>acc c. case acc of None \<Rightarrow> None
                            | Some a \<Rightarrow> (case digit_val c of None \<Rightarrow> None
                                        | Some d \<Rightarrow> if d < radix then Some (a * radix + d) else None))
                 (Some 0) s)"

definition parse_exponent :: "string \<Rightarrow> int option" where
  "parse_exponent s =
     (case s of
        [] \<Rightarrow> None
      | c # r \<Rightarrow> if c = CHR ''+'' then parse_digits 10 r
                else if c = CHR ''-'' then map_option uminus (parse_digits 10 r)
                else parse_digits 10 s)"

definition parse_unsigned_decimal :: "string \<Rightarrow> rat option" where
  "parse_unsigned_decimal s =
     (let ip = takeWhile is_digit s;
          r1 = dropWhile is_digit s;
          fp = (case r1 of [] \<Rightarrow> [] | c # t \<Rightarrow> if c = CHR ''.'' then takeWhile is_digit t else []);
          r2 = (case r1 of [] \<Rightarrow> [] | c # t \<Rightarrow> if c = CHR ''.'' then dropWhile is_digit t else r1);
          ex = (case r2 of [] \<Rightarrow> Some 0
                | c # t \<Rightarrow> if c = CHR ''e'' \<or> c = CHR ''E'' then parse_exponent t else None)
      in if ip = [] \<and> fp = [] then None
         else case (parse_digits 10 (ip @ fp), ex) of
                (Some m, Some e) \<Rightarrow> Some (of_int m * pow10 (e - int (length fp)))
              | _ \<Rightarrow> None)"

definition parse_decimal :: "string \<Rightarrow> jsnum" where
  "parse_decimal t =
     (let neg = (t \<noteq> [] \<and> hd t = CHR ''-'');
          u = (if t \<noteq> [] \<and> (hd t = CHR ''+'' \<or> hd t = CHR ''-'') then tl t else t)
      in if u = ''Infinity'' then (if neg then NInf else PInf)
         else case parse_unsigned_decimal u of
                None \<Rightarrow> NaN
              | Some v \<Rightarrow> fl (if neg then - v else v))"

definition parse_radix :: "int \<Rightarrow> string \<Rightarrow> jsnum" where
  "parse_radix radix ds = (case parse_digits radix ds of None \<Rightarrow> NaN | Some v \<Rightarrow> fl (of_int v))"

definition StringToNumber :: "string \<Rightarrow> jsnum" where
  "StringToNumber s =
     (let t = str_trim s
      in case t of
           [] \<Rightarrow> Fin 0
         | [c] \<Rightarrow> parse_decimal t
         | c # d # r \<Rightarrow>
             if c = CHR ''0'' \<and> (d = CHR ''x'' \<or> d = CHR ''X'') then parse_radix 16 r
             else if c = CHR ''0'' \<and> (d = CHR ''o'' \<or> d = CHR ''O'') then parse_radix 8 r
             else if c = CHR ''0'' \<and> (d = CHR ''b'' \<or> d = CHR ''B'') then parse_radix 2 r
             else parse_decimal t)"

text \<open>\<^verbatim>\<open>Number(v)\<close> for \<^verbatim>\<open>v\<close> a string or \<^verbatim>\<open>null\<close>: \<^verbatim>\<open>Number(null)\<close> is \<open>0\<close>.\<close>

fun js_Number :: "string option \<Rightarrow> jsnum" where
  "js_Number None = Fin 0"
| "js_Number (Some s) = StringToNumber s"

subsection \<open>String and array built-ins\<close>

text \<open>\<^verbatim>\<open>s.includes(t)\<close>: \<open>t\<close> occurs in \<open>s\<close> as a contiguous substring.\<close>

fun str_includes :: "string \<Rightarrow> string \<Rightarrow> bool" where
  "str_includes [] t = (t = [])"
| "str_includes (c # cs) t = (take (length t) (c # cs) = t \<or> str_includes cs t)"

text \<open>\<^verbatim>\<open>s.split(sep)\<close> for a one-character separator: every occurrence splits.\<close>

fun js_split :: "char \<Rightarrow> string \<Rightarrow> string list" where
  "js_split sep [] = [[]]"
| "js_split sep (c # cs) =
     (if c = sep then [] # js_split sep cs
      else case js_split sep cs of
             [] \<Rightarrow> [[c]]
           | p # ps \<Rightarrow> (c # p) # ps)"

text \<open>Reading index \<open>i\<close> of an array, as destructuring does: \<^verbatim>\<open>undefined\<close> out of range.\<close>

definition at_index :: "'a list \<Rightarrow> nat \<Rightarrow> 'a option" where
  "at_index xs i = (if i < length xs then Some (xs ! i) else None)"

text \<open>\<^verbatim>\<open>findIndex\<close> and \<^verbatim>\<open>indexOf\<close>: the first index that fits, \<open>-1\<close> when none does.\<close>

fun findIndex_from :: "('a \<Rightarrow> bool) \<Rightarrow> int \<Rightarrow> 'a list \<Rightarrow> int" where
  "findIndex_from P i [] = - 1"
| "findIndex_from P i (x # xs) = (if P x then i else findIndex_from P (i + 1) xs)"

definition findIndex :: "('a \<Rightarrow> bool) \<Rightarrow> 'a list \<Rightarrow> int" where
  "findIndex P xs = findIndex_from P 0 xs"

definition indexOf :: "'a \<Rightarrow> 'a list \<Rightarrow> int" where
  "indexOf x xs = findIndex_from (\<lambda>y. y = x) 0 xs"

text \<open>\<^verbatim>\<open>xs.filter((value, index, array) => \<dots>)\<close>, the callback seeing index and array.\<close>

definition filter_indexed :: "('a \<Rightarrow> nat \<Rightarrow> 'a list \<Rightarrow> bool) \<Rightarrow> 'a list \<Rightarrow> 'a list" where
  "filter_indexed P xs = map fst (filter (\<lambda>(v, i). P v i xs) (zip xs [0 ..< length xs]))"

text \<open>
  \<^verbatim>\<open>xs.splice(start, deleteCount)\<close>: the array left behind. A negative start counts from
  the end, both bounds are clamped to the array.
\<close>

definition splice :: "int \<Rightarrow> int \<Rightarrow> 'a list \<Rightarrow> 'a list" where
  "splice start deleteCount xs =
     (let len = int (length xs);
          actualStart = (if start < 0 then max (len + start) 0 else min start len);
          actualDeleteCount = min (max deleteCount 0) (len - actualStart)
      in take (nat actualStart) xs @ drop (nat (actualStart + actualDeleteCount)) xs)"

subsection \<open>URLSearchParams\<close>

text \<open>
  The query string as the ordered list of its name-value pairs; \<^verbatim>\<open>entries()\<close> iterates
  it in order, \<^verbatim>\<open>has\<close> looks for the name, \<^verbatim>\<open>get\<close> returns the first value under the
  name or \<^verbatim>\<open>null\<close>.
\<close>

type_synonym search_params = "(string \<times> string) list"

definition sp_has :: "search_params \<Rightarrow> string \<Rightarrow> bool" where
  "sp_has sp name = list_ex (\<lambda>(k, v). k = name) sp"

definition sp_get :: "search_params \<Rightarrow> string \<Rightarrow> string option" where
  "sp_get sp name = map_option snd (find (\<lambda>(k, v). k = name) sp)"

text \<open>
  The TypeScript non-null assertion \<^verbatim>\<open>e!\<close>. It is applied to \<^verbatim>\<open>searchParams.get(k)\<close>
  only after \<^verbatim>\<open>searchParams.has(k)\<close> held, where the value is a string.
\<close>

fun non_null :: "string option \<Rightarrow> string" where
  "non_null (Some s) = s"
| "non_null None = []"

section \<open>The collection route: filter and sort parameters\<close>

text \<open>
  From \<^verbatim>\<open>app/routes/($lang).collections.$collectionHandle.tsx\<close>: the part of \<^verbatim>\<open>loader\<close>
  that turns the request's query string into the variables of the collection query, and
  \<^verbatim>\<open>getSortValuesFromParam\<close>.
\<close>

datatype sort_key = RELEVANCE | PRICE | BEST_SELLING | CREATED | MANUAL

record sort_values =
  sortKey :: sort_key
  reverse :: bool

text \<open>The \<^verbatim>\<open>switch\<close> compares with \<^verbatim>\<open>===\<close>; \<^verbatim>\<open>null\<close> (no \<^verbatim>\<open>sort\<close> parameter) is \<open>None\<close>.\<close>

definition getSortValuesFromParam :: "string option \<Rightarrow> sort_values" where
  "getSortValuesFromParam sortParam =
     (if sortParam = Some ''price-high-low'' then \<lparr>sortKey = PRICE, reverse = True\<rparr>
      else if sortParam = Some ''price-low-high'' then \<lparr>sortKey = PRICE, reverse = False\<rparr>
      else if sortParam = Some ''best-selling'' then \<lparr>sortKey = BEST_SELLING, reverse = False\<rparr>
      else if sortParam = Some ''newest'' then \<lparr>sortKey = CREATED, reverse = True\<rparr>
      else if sortParam = Some ''featured'' then \<lparr>sortKey = MANUAL, reverse = False\<rparr>
      else \<lparr>sortKey = RELEVANCE, reverse = False\<rparr>)"

text \<open>
  The elements of \<^verbatim>\<open>filters\<close>: \<^verbatim>\<open>{available: b}\<close>, \<^verbatim>\<open>{[key]: value}\<close> for a known filter,
  \<^verbatim>\<open>{variantOption: {name, value}}\<close> and \<^verbatim>\<open>{price: {min?, max?}}\<close>. The two variant-option
  components come from destructuring an array and may be \<^verbatim>\<open>undefined\<close> (\<open>None\<close>); a
  price bound that was never assigned is absent (\<open>None\<close>).
\<close>

datatype filter_clause =
    Available bool
  | KnownFilter string string
  | VariantOption "string option" "string option"
  | Price "jsnum option" "jsnum option"

text \<open>
  An element of \<^verbatim>\<open>appliedFilters\<close>. The label of a variant option is the second piece of
  the split value, \<^verbatim>\<open>undefined\<close> (\<open>None\<close>) when there is none. \<open>urlParam\<close> is the pair
  \<^verbatim>\<open>{key, value}\<close>.
\<close>

record applied_filter =
  label :: "string option"
  urlParam :: "string \<times> string"

definition knownFilters :: "string list" where
  "knownFilters = [''productVendor'', ''productType'']"

definition available :: string where
  "available = ''available''"

definition variantOption :: string where
  "variantOption = ''variantOption''"

text \<open>One iteration of \<^verbatim>\<open>for (const [key, value] of searchParams.entries())\<close>.\<close>

fun scan_step ::
  "filter_clause list \<times> applied_filter list \<Rightarrow> string \<times> string
     \<Rightarrow> filter_clause list \<times> applied_filter list" where
  "scan_step (filters, appliedFilters) (key, value) =
     (if available = key then
        (filters @ [Available (value = ''true'')],
         appliedFilters @ [\<lparr>label = Some (if value = ''true'' then ''In stock'' else ''Out of stock''),
                            urlParam = (available, value)\<rparr>])
      else if key \<in> set knownFilters then
        (filters @ [KnownFilter key value],
         appliedFilters @ [\<lparr>label = Some value, urlParam = (key, value)\<rparr>])
      else if str_includes key variantOption then
        (let parts = js_split CHR '':'' value;
             name = at_index parts 0;
             val = at_index parts 1
         in (filters @ [VariantOption name val],
             appliedFilters @ [\<lparr>label = val, urlParam = (key, value)\<rparr>]))
      else (filters, appliedFilters))"

definition scan :: "search_params \<Rightarrow> filter_clause list \<times> applied_filter list" where
  "scan searchParams = foldl scan_step ([], []) searchParams"

text \<open>\<^verbatim>\<open>Number(searchParams.get(k)) || 0\<close>\<close>

definition number_or_zero :: "string option \<Rightarrow> jsnum" where
  "number_or_zero v = (let n = js_Number v in if truthy n then n else Fin 0)"

text \<open>The block after the loop that builds the single \<^verbatim>\<open>price\<close> filter.\<close>

definition price_block ::
  "search_params \<Rightarrow> filter_clause list \<times> applied_filter list
     \<Rightarrow> filter_clause list \<times> applied_filter list" where
  "price_block searchParams st =
     (case st of (filters, appliedFilters) \<Rightarrow>
        if sp_has searchParams ''minPrice'' \<or> sp_has searchParams ''maxPrice'' then
          let price_min = (if sp_has searchParams ''minPrice''
                           then Some (number_or_zero (sp_get searchParams ''minPrice'')) else None);
              appliedFilters1 = (case price_min of
                  None \<Rightarrow> appliedFilters
                | Some m \<Rightarrow> appliedFilters @
                    [\<lparr>label = Some (''Min: $'' @ Number_toString m),
                      urlParam = (''minPrice'', non_null (sp_get searchParams ''minPrice''))\<rparr>]);
              price_max = (if sp_has searchParams ''maxPrice''
                           then Some (number_or_zero (sp_get searchParams ''maxPrice'')) else None);
              appliedFilters2 = (case price_max of
                  None \<Rightarrow> appliedFilters1
                | Some m \<Rightarrow> appliedFilters1 @
                    [\<lparr>label = Some (''Max: $'' @ Number_toString m),
                      urlParam = (''maxPrice'', non_null (sp_get searchParams ''maxPrice''))\<rparr>])
          in (filters @ [Price price_min price_max], appliedFilters2)
        else (filters, appliedFilters))"

text \<open>
  What \<^verbatim>\<open>loader\<close> computes from the query string before it queries the storefront:
  the \<^verbatim>\<open>filters\<close>, \<^verbatim>\<open>sortKey\<close>, \<^verbatim>\<open>reverse\<close> and \<^verbatim>\<open>cursor\<close> variables of the query and the
  \<^verbatim>\<open>appliedFilters\<close> of the response. The route parameter \<^verbatim>\<open>collectionHandle\<close> is taken to be
  present; without it the \<^verbatim>\<open>invariant\<close> throws before the query string is read.
\<close>

record loader_variables =
  filters :: "filter_clause list"
  appliedFilters :: "applied_filter list"
  sort :: sort_values
  cursor :: "string option"

definition loader :: "search_params \<Rightarrow> loader_variables" where
  "loader searchParams =
     (let sv = getSortValuesFromParam (sp_get searchParams ''sort'');
          c = sp_get searchParams ''cursor'';
          st = price_block searchParams (scan searchParams)
      in \<lparr>filters = fst st, appliedFilters = snd st, sort = sv, cursor = c\<rparr>)"

section \<open>The product route: reviews and recommendations\<close>

text \<open>
  From \<^verbatim>\<open>app/routes/($lang).products.$productHandle.tsx\<close>. A review is a JSON object of
  the review service; the code reads its \<^verbatim>\<open>product_external_id\<close> and its \<^verbatim>\<open>rating\<close>, a
  Number that may be missing (\<open>None\<close>). Further fields live in the record's extension.
\<close>

record review =
  product_external_id :: string
  rating :: "jsnum option"

text \<open>What \<^verbatim>\<open>getAverageRating\<close> returns: the Number \<open>0\<close> or the string made by \<^verbatim>\<open>toFixed\<close>.\<close>

datatype js_value = JNum jsnum | JStr string

text \<open>
  The \<^verbatim>\<open>for\<close> loop of \<^verbatim>\<open>getAverageRating\<close>, from index \<open>i\<close> with the running \<^verbatim>\<open>sumKey\<close>:
  \<^verbatim>\<open>if (reviews[i][key]) sumKey += reviews[i][key]\<close>.
\<close>

function rating_loop :: "'a review_scheme list \<Rightarrow> nat \<Rightarrow> jsnum \<Rightarrow> jsnum" where
  "rating_loop reviews i sumKey =
     (if i < length reviews then
        rating_loop reviews (i + 1)
          (case rating (reviews ! i) of
             None \<Rightarrow> sumKey
           | Some r \<Rightarrow> if truthy r then js_add sumKey r else sumKey)
      else sumKey)"
  by pat_completeness auto
termination
  by (relation "measure (\<lambda>(reviews, i, sumKey). length reviews - i)") auto

declare rating_loop.simps [simp del]

definition getAverageRating :: "'a review_scheme list \<Rightarrow> js_value" where
  "getAverageRating reviews =
     (let sumKey = rating_loop reviews 0 (Fin 0)
      in if js_gt0 sumKey
         then JStr (toFixed 2
                (js_mul (js_div sumKey (js_mul (Fin (of_nat (length reviews))) (Fin 5))) (Fin 5)))
         else JNum (Fin 0))"

record 'a review_summary =
  reviews :: "'a review_scheme list"
  totalReviews :: nat
  averageRating :: js_value

definition getProductReviews :: "'a review_scheme list \<Rightarrow> 'a review_summary" where
  "getProductReviews myData =
     (let averageRating = getAverageRating myData
      in \<lparr>reviews = myData, totalReviews = length myData, averageRating = averageRating\<rparr>)"

text \<open>
  \<^verbatim>\<open>getReviewsWithID\<close>. The review service is a function from the requested page number
  to what \<^verbatim>\<open>fetch\<close> and \<^verbatim>\<open>response.json()\<close> give: the \<^verbatim>\<open>reviews\<close> array of the page, or
  a failure (\<open>Inl\<close>), which rejects the whole call. The recursion has no bound of its own,
  so it is a partial function: \<open>None\<close> is a call that never returns. The page numbers
  requested so far are threaded along as \<open>requested\<close>, to record the requests made.
\<close>

partial_function (option) getReviewsWithID_from ::
  "(nat \<Rightarrow> 'e + 'a review_scheme list) \<Rightarrow> string \<Rightarrow> nat \<Rightarrow> 'a review_scheme list \<Rightarrow> nat list
     \<Rightarrow> ('e + 'a review_scheme list \<times> nat list) option" where
  "getReviewsWithID_from fetch externalID page products requested =
     (case fetch page of
        Inl err \<Rightarrow> Some (Inl err)
      | Inr data_reviews \<Rightarrow>
          if length data_reviews = 0 then Some (Inr (products, requested @ [page]))
          else getReviewsWithID_from fetch externalID (page + 1)
                 (products @ filter (\<lambda>product. product_external_id product = externalID) data_reviews)
                 (requested @ [page]))"

declare getReviewsWithID_from.simps [code]

text \<open>The call with the default arguments \<^verbatim>\<open>page = 1\<close>, \<^verbatim>\<open>products = []\<close>.\<close>

definition getReviewsWithID ::
  "(nat \<Rightarrow> 'e + 'a review_scheme list) \<Rightarrow> string
     \<Rightarrow> ('e + 'a review_scheme list \<times> nat list) option" where
  "getReviewsWithID fetch externalID = getReviewsWithID_from fetch externalID 1 [] []"

text \<open>
  \<^verbatim>\<open>getRecommendedProducts\<close>. A product is read through its \<^verbatim>\<open>id\<close> only. The storefront
  answers with the \<^verbatim>\<open>recommended\<close> list and the nodes of \<^verbatim>\<open>additional\<close>; no answer at all
  (\<open>None\<close>) fails the \<^verbatim>\<open>invariant\<close>.
\<close>

record product =
  product_id :: string

record 'a recommended_products =
  recommended :: "'a product_scheme list"
  additional_nodes :: "'a product_scheme list"

datatype invariant_error = Invariant_failed string

definition getRecommendedProducts ::
  "'a recommended_products option \<Rightarrow> string \<Rightarrow> invariant_error + 'a product_scheme list" where
  "getRecommendedProducts response productId =
     (case response of
        None \<Rightarrow> Inl (Invariant_failed ''No data returned from Shopify API'')
      | Some products0 \<Rightarrow>
          let products = products0\<lparr>recommended := []\<rparr>;
              mergedProducts =
                filter_indexed
                  (\<lambda>value index array.
                     findIndex (\<lambda>value2. product_id value2 = product_id value) array = int index)
                  (recommended products @ additional_nodes products);
              originalProduct = indexOf productId (map product_id mergedProducts)
          in Inr (splice originalProduct 1 mergedProducts))"

section \<open>Descriptions used in the properties\<close>

text \<open>
  A price bound as the properties describe it: the Number read from the raw parameter
  value, with \<open>0\<close> in place of NaN.
\<close>

definition price_bound :: "string \<Rightarrow> jsnum" where
  "price_bound raw = (if StringToNumber raw = NaN then Fin 0 else StringToNumber raw)"

text \<open>
  The rating sum as the properties describe it: the ratings of the records, added from
  left to right starting at \<open>0\<close>, where a rating that is missing or falsy (\<open>0\<close>, NaN) adds
  nothing.
\<close>

definition counted_ratings :: "'a review_scheme list \<Rightarrow> jsnum list" where
  "counted_ratings rs =
     concat (map (\<lambda>r. case rating r of None \<Rightarrow> [] | Some x \<Rightarrow> if truthy x then [x] else []) rs)"

definition rating_sum :: "'a review_scheme list \<Rightarrow> jsnum" where
  "rating_sum rs = foldl js_add (Fin 0) (counted_ratings rs)"

text \<open>A record whose rating is missing, zero or otherwise falsy.\<close>

definition falsy_rating :: "'a review_scheme \<Rightarrow> bool" where
  "falsy_rating r = (case rating r of None \<Rightarrow> True | Some x \<Rightarrow> \<not> truthy x)"

text \<open>The records of a page of the review service; a failed request has none.\<close>

definition page_reviews :: "(nat \<Rightarrow> 'e + 'a review_scheme list) \<Rightarrow> nat \<Rightarrow> 'a review_scheme list" where
  "page_reviews fetch p = (case fetch p of Inl err \<Rightarrow> [] | Inr rs \<Rightarrow> rs)"

text \<open>
  Deduplication by id that keeps the first product of every id: the head stays, and the
  later products with the head's id are dropped from the rest.
\<close>

function dedup_by_id :: "'a product_scheme list \<Rightarrow> 'a product_scheme list" where
  "dedup_by_id [] = []"
| "dedup_by_id (p # ps) = p # dedup_by_id (filter (\<lambda>q. product_id q \<noteq> product_id p) ps)"
  by pat_completeness auto
termination
  by (relation "measure length") (auto simp add: less_Suc_eq_le)

text \<open>
  A non-negative number written in fixed-point notation with two decimals: the number of
  hundredths is rounded to the nearest integer \<open>n\<close>, a tie going up, and the string is the
  decimal digits of \<open>n div 100\<close>, a point, and the two digits of \<open>n mod 100\<close>.
\<close>

definition two_decimals :: "rat \<Rightarrow> string" where
  "two_decimals q =
     (let n = \<lfloor>q * 100 + 1 / 2\<rfloor>
      in digits_of (n div 100) @ ''.'' @ [digit_char (n div 10 mod 10), digit_char (n mod 10)])"

text \<open>
  A record of the review service as the data model has it: the rating, when present, is a
  finite number between \<open>0\<close> and \<open>5\<close>.
\<close>

definition rating_in_range :: "'a review_scheme \<Rightarrow> bool" where
  "rating_in_range r =
     (case rating r of
        None \<Rightarrow> True
      | Some x \<Rightarrow> (case x of Fin a \<Rightarrow> 0 \<le> a \<and> a \<le> 5 | _ \<Rightarrow> False))"

text \<open>A string that begins with a decimal digit, a minus sign or the letter \<open>I\<close>.\<close>

definition starts_plain :: "string \<Rightarrow> bool" where
  "starts_plain s = (s \<noteq> [] \<and> hd s \<in> set ''0123456789-I'')"

section \<open>Facts about the Number model\<close>

lemma round_half_even_of_int [simp]: "round_half_even (of_int m) = m"
  by (simp add: round_half_even_def)

lemma pow2_nonpos: "e \<le> 0 \<Longrightarrow> pow2 e = 1 / 2 ^ nat (- e)"
  by (cases "e = 0") (simp_all add: pow2_def)

lemma ilog2_of_int:
  assumes "0 < n"
  shows "ilog2 (of_int n) = bitlen n - 1"
  using assms by (simp add: ilog2_def)

lemma bitlen_le_53:
  assumes "0 < n" "n < 2 ^ 53"
  shows "1 \<le> bitlen n \<and> bitlen n \<le> 53"
proof -
  from bitlen_bounds [OF assms(1)]
  have lo: "2 ^ nat (bitlen n - 1) \<le> n" by simp
  have pos: "1 \<le> bitlen n"
    using assms(1) bitlen_eq_zero_iff [of n] bitlen_nonneg [of n] by linarith
  have "bitlen n \<le> 53"
  proof (rule ccontr)
    assume "\<not> bitlen n \<le> 53"
    then have "53 \<le> nat (bitlen n - 1)" by simp
    then have "(2::int) ^ 53 \<le> 2 ^ nat (bitlen n - 1)"
      by (rule power_increasing) simp
    with lo assms(2) show False by linarith
  qed
  with pos show ?thesis by simp
qed

lemma fl_pos_int_exact:
  assumes "0 < n" "n < 2 ^ 53"
  shows "fl (of_int n) = Fin (of_int n)"
proof -
  define k where "k = bitlen n - 1"
  from bitlen_le_53 [OF assms] have k: "0 \<le> k" "k \<le> 52" by (simp_all add: k_def)
  define d where "d = nat (52 - k)"
  have e: "max (ilog2 (of_int n)) (- 1022) - 52 = - int d"
    using k by (simp add: ilog2_of_int [OF assms(1)] k_def [symmetric] d_def)
  have p: "pow2 (- int d) = 1 / 2 ^ d"
    by (simp add: pow2_nonpos)
  have q: "(of_int n :: rat) / pow2 (- int d) = of_int (n * 2 ^ d)"
    by (simp add: p)
  have r: "(of_int (n * 2 ^ d) :: rat) * pow2 (- int d) = of_int n"
    by (simp add: p)
  have "(of_int n :: rat) < of_int (2 ^ 53)" using assms(2) by (simp only: of_int_less_iff)
  then have small: "\<not> (2 ^ 1024 \<le> (of_int n :: rat))" by simp
  have a: "\<bar>of_int n :: rat\<bar> = of_int n" using assms(1) by simp
  have nz: "(of_int n :: rat) \<noteq> 0" "(0::rat) < of_int n" using assms(1) by simp_all
  show ?thesis
    unfolding fl_def Let_def a e q round_half_even_of_int r
    using nz small by simp
qed

lemma fl_neg: "fl (- q) = (case fl q of Fin r \<Rightarrow> Fin (- r) | PInf \<Rightarrow> NInf | NInf \<Rightarrow> PInf | NaN \<Rightarrow> NaN)"
  by (cases "q = 0"; cases "0 < q") (auto simp add: fl_def Let_def)

lemma fl_int_exact:
  assumes "\<bar>n\<bar> < 2 ^ 53"
  shows "fl (of_int n) = Fin (of_int n)"
proof -
  consider "n = 0" | "0 < n" | "n < 0" by linarith
  then show ?thesis
  proof cases
    case 1
    then show ?thesis by (simp add: fl_def)
  next
    case 2
    with assms show ?thesis by (intro fl_pos_int_exact) simp_all
  next
    case 3
    with assms have "fl (of_int (- n)) = Fin (of_int (- n))" by (intro fl_pos_int_exact) simp_all
    then have "fl (- (- of_int n)) = Fin (of_int n)"
      by (subst fl_neg) simp
    then show ?thesis by simp
  qed
qed

lemma fl_numeral [simp]:
  "(numeral w :: int) < 2 ^ 53 \<Longrightarrow> fl (numeral w) = Fin (numeral w)"
  using fl_int_exact [of "numeral w"] by simp

lemma fl_neg_numeral [simp]:
  "(numeral w :: int) < 2 ^ 53 \<Longrightarrow> fl (- numeral w) = Fin (- numeral w)"
  using fl_int_exact [of "- numeral w"] by simp

lemma floor_numeral_div [simp]:
  "\<lfloor>numeral a / numeral b :: rat\<rfloor> = numeral a div numeral b"
  using floor_divide_of_int_eq [of "numeral a" "numeral b", where ?'a = rat] by simp

lemma ceiling_numeral_div [simp]:
  "\<lceil>numeral a / numeral b :: rat\<rceil> = - ((- numeral a) div numeral b)"
  using floor_divide_of_int_eq [of "- numeral a" "numeral b", where ?'a = rat]
  by (simp add: ceiling_def)

lemma digits_of_small: "n < 10 \<Longrightarrow> digits_of n = [digit_char n]"
  by (simp add: digits_of.simps)

lemma digits_of_big: "10 \<le> n \<Longrightarrow> digits_of n = digits_of (n div 10) @ [digit_char (n mod 10)]"
  by (subst digits_of.simps) simp

lemma bitlen_pos: "0 < x \<Longrightarrow> bitlen x = bitlen (x div 2) + 1"
  by (subst compute_bitlen) simp

lemma Number_toString_zero [simp]: "Number_toString (Fin 0) = ''0''"
  by (simp add: Number_toString.simps)

lemmas num_eval = digits_of_small digits_of_big digit_char_def bitlen_pos

lemmas parse_eval = StringToNumber_def str_trim_def is_ws_def parse_decimal_def
  parse_unsigned_decimal_def is_digit_def parse_digits_def digit_val_def pow10_def
  parse_exponent_def parse_radix_def Let_def

lemmas print_eval = Number_toString.simps shortest_digits_def ilog10_def num_eval Let_def pow10_def format_digits_def
  upt_rec

lemma fl_not_NaN [simp]: "fl q \<noteq> NaN"
  by (simp add: fl_def Let_def)

lemma digits_of_hd: "digits_of n \<noteq> [] \<and> hd (digits_of n) \<in> set ''0123456789''"
proof (induction n rule: digits_of.induct)
  case (1 n)
  show ?case
  proof (cases "n < 10")
    case True
    then have "nat n < length ''0123456789''" by simp
    then have "''0123456789'' ! nat n \<in> set ''0123456789''" by (rule nth_mem)
    with True show ?thesis by (simp add: digits_of_small digit_char_def)
  next
    case False
    with "1.IH" have "digits_of (n div 10) \<noteq> [] \<and> hd (digits_of (n div 10)) \<in> set ''0123456789''"
      by simp
    with False show ?thesis by (simp add: digits_of_big)
  qed
qed

lemma starts_plain_not_NaN: "starts_plain s \<Longrightarrow> s \<noteq> ''NaN''"
  by (auto simp add: starts_plain_def)

lemma starts_plain_digits [simp]: "starts_plain (digits_of n)"
  using digits_of_hd [of n] by (auto simp add: starts_plain_def)

lemma starts_plain_append: "starts_plain s \<Longrightarrow> starts_plain (s @ t)"
  by (simp add: starts_plain_def)

lemma starts_plain_take: "starts_plain s \<Longrightarrow> 0 < n \<Longrightarrow> starts_plain (take n s)"
  by (cases s; cases n) (simp_all add: starts_plain_def)

lemma starts_plain_format: "starts_plain ds \<Longrightarrow> starts_plain (format_digits ds n)"
  by (auto simp add: format_digits_def Let_def starts_plain_append starts_plain_take)
     (simp_all add: starts_plain_def)

lemma starts_plain_shortest: "starts_plain (fst (shortest_digits x))"
  by (simp add: shortest_digits_def Let_def split: option.splits prod.splits)

lemma starts_plain_toString: "x \<noteq> NaN \<Longrightarrow> starts_plain (Number_toString x)"
proof (cases x)
  case (Fin q)
  obtain ds n where sd: "shortest_digits \<bar>q\<bar> = (ds, n)" by (cases "shortest_digits \<bar>q\<bar>")
  with starts_plain_shortest [of "\<bar>q\<bar>"] have "starts_plain ds" by simp
  then have "starts_plain (format_digits ds n)" by (rule starts_plain_format)
  then show ?thesis
    by (auto simp add: Fin Number_toString.simps sd starts_plain_def)
qed (simp_all add: starts_plain_def)

lemma starts_plain_toFixed: "x \<noteq> NaN \<Longrightarrow> starts_plain (toFixed f x)"
proof (cases x)
  case (Fin q)
  show ?thesis
  proof (cases "10 ^ 21 \<le> \<bar>q\<bar>")
    case True
    then show ?thesis using starts_plain_toString [of x] by (simp add: toFixed_def Fin)
  next
    case False
    define m where "m = digits_of \<lfloor>\<bar>q\<bar> * 10 ^ f + 1 / 2\<rfloor>"
    define m1 where "m1 = (if length m \<le> f then replicate (f + 1 - length m) CHR ''0'' @ m else m)"
    have pm: "starts_plain m" by (simp add: m_def)
    have pm1: "starts_plain m1"
      using pm by (auto simp add: m1_def starts_plain_def)
    have len: "f < length m1" by (auto simp add: m1_def)
    have body: "starts_plain (if f \<noteq> 0 then take (length m1 - f) m1 @ ''.'' @ drop (length m1 - f) m1 else m)"
      using pm pm1 len by (auto intro!: starts_plain_append starts_plain_take)
    have "toFixed f x = (if q < 0 then ''-'' else [])
             @ (if f \<noteq> 0 then take (length m1 - f) m1 @ ''.'' @ drop (length m1 - f) m1 else m)"
      using False by (simp add: toFixed_def Fin Let_def m_def m1_def)
    with body show ?thesis by (auto simp add: starts_plain_def)
  qed
next
  case PInf
  then show ?thesis by (simp add: toFixed_def starts_plain_def)
next
  case NInf
  then show ?thesis by (simp add: toFixed_def starts_plain_def)
next
  case NaN
  assume "x \<noteq> NaN"
  with NaN show ?thesis by simp
qed

lemma toFixed_not_NaN: "x \<noteq> NaN \<Longrightarrow> toFixed f x \<noteq> ''NaN''"
  by (rule starts_plain_not_NaN) (rule starts_plain_toFixed)

text \<open>
  Below \<open>10\<^sup>2\<^sup>1\<close>, \<^verbatim>\<open>toFixed(2)\<close> is fixed-point with two decimals: with \<open>n\<close> the magnitude in
  hundredths rounded to the nearest integer, a tie going up, it prints \<open>n div 100\<close>, a point and
  the two digits of \<open>n mod 100\<close>.
\<close>

lemma digits_of_length_pos: "0 < length (digits_of n)"
  using digits_of_hd [of n] by simp

lemma two_places_split:
  assumes "0 \<le> n"
  defines "m \<equiv> digits_of n"
  defines "m1 \<equiv> (if length m \<le> 2 then replicate (2 + 1 - length m) CHR ''0'' @ m else m)"
  shows "take (length m1 - 2) m1 = digits_of (n div 100)
         \<and> drop (length m1 - 2) m1 = [digit_char (n div 10 mod 10), digit_char (n mod 10)]"
proof -
  consider "n < 10" | "10 \<le> n" "n < 100" | "100 \<le> n" by linarith
  then show ?thesis
  proof cases
    case 1
    then have "n div 100 = 0" "n div 10 mod 10 = 0" "n mod 10 = n" using assms(1) by simp_all
    with 1 show ?thesis by (simp add: m1_def m_def digits_of_small digit_char_def)
  next
    case 2
    then have z: "n div 100 = 0" "n div 10 mod 10 = n div 10" "n div 10 < 10" by simp_all
    have "m = [digit_char (n div 10), digit_char (n mod 10)]"
      using 2 z by (simp add: m_def digits_of_big digits_of_small)
    moreover have "digit_char 0 = CHR ''0''" by (simp add: digit_char_def)
    ultimately show ?thesis by (simp add: m1_def z digits_of_small)
  next
    case 3
    then have b: "10 \<le> n" "10 \<le> n div 10" by simp_all
    have d: "n div 10 div 10 = n div 100" by simp
    have "m = digits_of (n div 100) @ [digit_char (n div 10 mod 10), digit_char (n mod 10)]"
      unfolding m_def by (subst digits_of_big [OF b(1)], subst digits_of_big [OF b(2)]) (simp add: d)
    then show ?thesis using digits_of_length_pos [of "n div 100"] by (simp add: m1_def)
  qed
qed

lemma toFixed_two_places:
  assumes "\<bar>q\<bar> < 10 ^ 21"
  shows "toFixed 2 (Fin q) =
           (if q < 0 then ''-'' else [])
             @ digits_of (\<lfloor>\<bar>q\<bar> * 100 + 1 / 2\<rfloor> div 100) @ ''.''
             @ [digit_char (\<lfloor>\<bar>q\<bar> * 100 + 1 / 2\<rfloor> div 10 mod 10),
                digit_char (\<lfloor>\<bar>q\<bar> * 100 + 1 / 2\<rfloor> mod 10)]"
proof -
  have n: "0 \<le> \<lfloor>\<bar>q\<bar> * 100 + 1 / 2\<rfloor>" by simp
  from two_places_split [OF n] assms show ?thesis
    by (simp add: toFixed_def Let_def)
qed

lemma toFixed_two_decimals:
  assumes "\<bar>q\<bar> < 10 ^ 21"
  shows "toFixed 2 (Fin q) = (if q < 0 then ''-'' else []) @ two_decimals \<bar>q\<bar>"
  using toFixed_two_places [OF assms] by (simp add: two_decimals_def Let_def)

text \<open>
  From \<open>10\<^sup>2\<^sup>1\<close> on, and for an infinity, \<^verbatim>\<open>toFixed\<close> gives the plain string conversion of the
  Number instead.
\<close>

lemma toFixed_beyond_range:
  "toFixed 2 (Fin (10 ^ 21)) = ''1e+21'' \<and> toFixed 2 PInf = ''Infinity''"
proof -
  have e: "fl (10 ^ 21) = Fin (10 ^ 21)"
    by (simp add: fl_def ilog2_def bitlen_pos pow2_def round_half_even_def Let_def)
  have "Number_toString (Fin (10 ^ 21)) = ''1e+21''"
    using e by (simp add: print_eval)
  then show ?thesis by (simp add: toFixed_def)
qed

text \<open>
  Rounding a positive value below \<open>2\<^sup>5\<^sup>3\<close> stays finite and non-negative and adds at most \<open>1\<close>.
\<close>

lemma ilog2_le_52:
  assumes "0 < q" "q < 2 ^ 53"
  shows "ilog2 q \<le> 52"
proof (cases "1 \<le> q")
  case True
  then have pos: "0 < \<lfloor>q\<rfloor>" by simp
  have "q < of_int (2 ^ 53)" using assms(2) by simp
  then have "\<lfloor>q\<rfloor> < 2 ^ 53" by (simp only: floor_less_iff)
  from bitlen_le_53 [OF pos this] True show ?thesis by (simp add: ilog2_def)
next
  case False
  have "0 \<le> bitlen (\<lceil>1 / q\<rceil> - 1)" by (rule bitlen_nonneg)
  with False show ?thesis by (simp add: ilog2_def)
qed

lemma round_half_even_bounds:
  assumes "0 \<le> x"
  shows "0 \<le> round_half_even x \<and> of_int (round_half_even x) \<le> x + 1"
proof -
  have f: "0 \<le> \<lfloor>x\<rfloor>" using assms by simp
  have l: "of_int \<lfloor>x\<rfloor> \<le> x" by (rule of_int_floor_le)
  have "round_half_even x = \<lfloor>x\<rfloor> \<or> round_half_even x = \<lfloor>x\<rfloor> + 1"
    by (simp add: round_half_even_def Let_def)
  then show ?thesis
  proof
    assume "round_half_even x = \<lfloor>x\<rfloor>"
    with f l show ?thesis by linarith
  next
    assume "round_half_even x = \<lfloor>x\<rfloor> + 1"
    then have "of_int (round_half_even x) = of_int \<lfloor>x\<rfloor> + (1::rat)" by simp
    with f l \<open>round_half_even x = \<lfloor>x\<rfloor> + 1\<close> show ?thesis by linarith
  qed
qed

lemma fl_small:
  assumes "0 < q" "q < 2 ^ 53"
  shows "\<exists>r. fl q = Fin r \<and> 0 \<le> r \<and> r \<le> q + 1"
proof -
  define e where "e = max (ilog2 q) (- 1022) - 52"
  define p where "p = pow2 e"
  define m where "m = round_half_even (q / p)"
  have "e \<le> 0" using ilog2_le_52 [OF assms] by (simp add: e_def)
  then have pe: "p = 1 / 2 ^ nat (- e)" unfolding p_def by (rule pow2_nonpos)
  have "(1::rat) \<le> 2 ^ nat (- e)" by simp
  then have p1: "0 < p" "p \<le> 1" by (simp_all add: pe)
  have x0: "0 \<le> q / p" using assms(1) p1 by simp
  from round_half_even_bounds [OF x0]
  have m0: "0 \<le> m" and m1: "of_int m \<le> q / p + 1" by (simp_all add: m_def)
  have "of_int m * p \<le> (q / p + 1) * p"
    using m1 p1(1) by (intro mult_right_mono) simp_all
  also have "\<dots> = q + p" using p1(1) by (simp add: distrib_right)
  also have "\<dots> \<le> q + 1" using p1(2) by simp
  finally have r1: "of_int m * p \<le> q + 1" .
  have r0: "0 \<le> of_int m * p" using m0 p1(1) by simp
  have "q + 1 < 2 ^ 53 + 1" using assms(2) by simp
  also have "\<dots> < (2::rat) ^ 1024" by simp
  finally have "of_int m * p < 2 ^ 1024" using r1 by simp
  then have "fl q = Fin (of_int m * p)"
    using assms(1) by (simp add: fl_def Let_def e_def [symmetric] p_def [symmetric] m_def [symmetric])
  with r0 r1 show ?thesis by blast
qed

lemma fl_small_nonneg:
  assumes "0 \<le> q" "q < 2 ^ 53"
  shows "\<exists>r. fl q = Fin r \<and> 0 \<le> r \<and> r \<le> q + 1"
proof (cases "q = 0")
  case True
  then show ?thesis by (simp add: fl_def)
next
  case False
  with assms have "0 < q" by simp
  then show ?thesis using assms(2) by (rule fl_small)
qed

lemma denominator_exact:
  assumes "n < 2 ^ 32"
  shows "js_mul (Fin (of_nat n)) (Fin 5) = Fin (of_nat n * 5)"
proof -
  have "\<bar>int n * 5\<bar> < 2 ^ 53" using assms by simp
  from fl_int_exact [OF this] show ?thesis by simp
qed

lemma average_not_NaN:
  assumes "js_gt0 s" "0 < n" "n < 2 ^ 32"
  shows "js_mul (js_div s (js_mul (Fin (of_nat n)) (Fin 5))) (Fin 5) \<noteq> NaN"
proof -
  have d: "js_mul (Fin (of_nat n)) (Fin 5) = Fin (of_nat n * 5)"
    using assms(3) by (rule denominator_exact)
  have nz: "(of_nat n * 5 :: rat) \<noteq> 0" "(0::rat) \<le> of_nat n * 5" using assms(2) by simp_all
  show ?thesis
  proof (cases s)
    case (Fin a)
    have "js_div s (Fin (of_nat n * 5)) = fl (a / (of_nat n * 5))"
      using nz by (simp add: Fin)
    moreover have "js_mul (fl (a / (of_nat n * 5))) (Fin 5) \<noteq> NaN"
      by (cases "fl (a / (of_nat n * 5))") (simp_all add: inf_of_sign_def)
    ultimately show ?thesis unfolding d by simp
  next
    case PInf
    then show ?thesis unfolding d using nz by (simp add: inf_of_sign_def)
  next
    case NInf
    with assms(1) show ?thesis by simp
  next
    case NaN
    with assms(1) show ?thesis by simp
  qed
qed

section \<open>Properties of the filter and sort translation\<close>

subsection \<open>The scan as a concatenation of per-parameter outputs\<close>

lemma scan_step_append:
  "scan_step (fs, afs) e = (fs @ fst (scan_step ([], []) e), afs @ snd (scan_step ([], []) e))"
  by (cases e) (simp add: Let_def)

lemma foldl_scan_step:
  "foldl scan_step (fs, afs) sp =
     (fs @ concat (map (\<lambda>e. fst (scan_step ([], []) e)) sp),
      afs @ concat (map (\<lambda>e. snd (scan_step ([], []) e)) sp))"
proof (induction sp arbitrary: fs afs)
  case Nil
  show ?case by simp
next
  case (Cons e sp)
  have "foldl scan_step (fs, afs) (e # sp) =
          foldl scan_step (fs @ fst (scan_step ([], []) e), afs @ snd (scan_step ([], []) e)) sp"
    by (subst foldl_Cons, subst scan_step_append) (rule refl)
  then show ?case by (simp add: Cons.IH)
qed

lemma scan_concat:
  "scan sp = (concat (map (\<lambda>e. fst (scan_step ([], []) e)) sp),
              concat (map (\<lambda>e. snd (scan_step ([], []) e)) sp))"
  by (simp add: scan_def foldl_scan_step)

lemma scan_append:
  "scan (xs @ ys) = (fst (scan xs) @ fst (scan ys), snd (scan xs) @ snd (scan ys))"
  by (simp add: scan_concat)

lemma scan_Cons:
  "scan (e # ys) =
     (fst (scan_step ([], []) e) @ fst (scan ys), snd (scan_step ([], []) e) @ snd (scan ys))"
  by (simp add: scan_concat)

lemma price_block_append:
  "price_block sp (fs, afs) =
     (fs @ fst (price_block sp ([], [])), afs @ snd (price_block sp ([], [])))"
  by (simp add: price_block_def Let_def)

lemma loader_filters: "filters (loader sp) = fst (scan sp) @ fst (price_block sp ([], []))"
proof -
  obtain fs afs where st: "scan sp = (fs, afs)" by (cases "scan sp")
  show ?thesis by (simp add: loader_def Let_def st price_block_append [of sp fs afs])
qed

lemma loader_appliedFilters:
  "appliedFilters (loader sp) = snd (scan sp) @ snd (price_block sp ([], []))"
proof -
  obtain fs afs where st: "scan sp = (fs, afs)" by (cases "scan sp")
  show ?thesis by (simp add: loader_def Let_def st price_block_append [of sp fs afs])
qed

lemmas scan_eval = scan_def available_def knownFilters_def variantOption_def at_index_def Let_def
lemmas price_eval = price_block_def sp_has_def sp_get_def number_or_zero_def Let_def

subsection \<open>The sort token\<close>

text \<open>
  C5. \<open>getSortValuesFromParam\<close> is a function on every token, the absent one (\<open>None\<close>)
  included, with no error branch: \<^verbatim>\<open>price-high-low\<close> gives \<open>PRICE\<close> reversed, and the absent
  token and every token outside the five of the table give \<open>RELEVANCE\<close>, not reversed.
\<close>

theorem getSortValuesFromParam_table:
  "getSortValuesFromParam (Some ''price-high-low'') = \<lparr>sortKey = PRICE, reverse = True\<rparr>
   \<and> getSortValuesFromParam None = \<lparr>sortKey = RELEVANCE, reverse = False\<rparr>
   \<and> (\<forall>t. t \<notin> set [''price-high-low'', ''price-low-high'', ''best-selling'', ''newest'', ''featured'']
          \<longrightarrow> getSortValuesFromParam (Some t) = \<lparr>sortKey = RELEVANCE, reverse = False\<rparr>)"
  by (simp add: getSortValuesFromParam_def)

theorem getSortValuesFromParam_table_witness:
  "''bogus'' \<notin> set [''price-high-low'', ''price-low-high'', ''best-selling'', ''newest'', ''featured'']
   \<and> getSortValuesFromParam (Some ''bogus'') = \<lparr>sortKey = RELEVANCE, reverse = False\<rparr>"
proof -
  have h: "''bogus'' \<notin> set [''price-high-low'', ''price-low-high'', ''best-selling'', ''newest'', ''featured'']"
    by simp
  from getSortValuesFromParam_table
  have "getSortValuesFromParam (Some ''bogus'') = \<lparr>sortKey = RELEVANCE, reverse = False\<rparr>"
    using h by blast
  with h show ?thesis by blast
qed

subsection \<open>Availability and the known filters\<close>

text \<open>
  C6. Wherever a parameter named \<^verbatim>\<open>available\<close> stands in the query string, the filters
  hold, at its place in the scan's output, the clause \<open>Available b\<close> with \<open>b\<close> true exactly
  when the value is the string \<^verbatim>\<open>true\<close>, and the applied filters hold the descriptor
  labelled \<^verbatim>\<open>In stock\<close> for \<^verbatim>\<open>true\<close> and \<^verbatim>\<open>Out of stock\<close> for any other value.
\<close>

theorem available_emits:
  "filters (loader (pre @ (''available'', v) # post)) =
     fst (scan pre) @ Available (v = ''true'') # fst (scan post)
       @ fst (price_block (pre @ (''available'', v) # post) ([], []))
   \<and> appliedFilters (loader (pre @ (''available'', v) # post)) =
       snd (scan pre)
         @ \<lparr>label = Some (if v = ''true'' then ''In stock'' else ''Out of stock''),
             urlParam = (''available'', v)\<rparr> # snd (scan post)
         @ snd (price_block (pre @ (''available'', v) # post) ([], []))"
  by (simp add: loader_filters loader_appliedFilters scan_append scan_Cons available_def)

theorem available_emits_witness:
  "filters (loader [(''available'', ''true''), (''available'', ''false''), (''available'', ''TRUE'')]) =
     [Available True, Available False, Available False]
   \<and> map label (appliedFilters
         (loader [(''available'', ''true''), (''available'', ''false''), (''available'', ''TRUE'')])) =
       [Some ''In stock'', Some ''Out of stock'', Some ''Out of stock'']"
proof -
  have pre: "scan [(''available'', ''true'')] =
      ([Available True], [\<lparr>label = Some ''In stock'', urlParam = (''available'', ''true'')\<rparr>])"
    by (simp add: scan_eval)
  have post: "scan [(''available'', ''TRUE'')] =
      ([Available False], [\<lparr>label = Some ''Out of stock'', urlParam = (''available'', ''TRUE'')\<rparr>])"
    by (simp add: scan_eval)
  have pb: "price_block
      [(''available'', ''true''), (''available'', ''false''), (''available'', ''TRUE'')] ([], []) = ([], [])"
    by (simp add: price_eval)
  from available_emits [of "[(''available'', ''true'')]" "''false''" "[(''available'', ''TRUE'')]"]
  show ?thesis by (simp add: pre post pb)
qed

text \<open>
  C7. Wherever a parameter whose key is one of the known filters (\<^verbatim>\<open>productVendor\<close>,
  \<^verbatim>\<open>productType\<close>) stands in the query string, the filters hold the clause
  \<^verbatim>\<open>{[key]: value}\<close> and the applied filters hold a descriptor whose label is the raw value.
\<close>

theorem known_filter_emits:
  assumes "key \<in> set knownFilters"
  shows "filters (loader (pre @ (key, v) # post)) =
           fst (scan pre) @ KnownFilter key v # fst (scan post)
             @ fst (price_block (pre @ (key, v) # post) ([], []))
         \<and> appliedFilters (loader (pre @ (key, v) # post)) =
             snd (scan pre) @ \<lparr>label = Some v, urlParam = (key, v)\<rparr> # snd (scan post)
               @ snd (price_block (pre @ (key, v) # post) ([], []))"
  using assms
  by (auto simp add: loader_filters loader_appliedFilters scan_append scan_Cons available_def
        knownFilters_def)

theorem known_filter_emits_witness:
  "''productVendor'' \<in> set knownFilters
   \<and> filters (loader [(''available'', ''false''), (''productVendor'', ''Acme''), (''productType'', ''Shoes'')]) =
       [Available False, KnownFilter ''productVendor'' ''Acme'', KnownFilter ''productType'' ''Shoes'']
   \<and> map label (appliedFilters
         (loader [(''available'', ''false''), (''productVendor'', ''Acme''), (''productType'', ''Shoes'')])) =
       [Some ''Out of stock'', Some ''Acme'', Some ''Shoes'']"
proof -
  have h: "''productVendor'' \<in> set knownFilters" by (simp add: knownFilters_def)
  have pre: "scan [(''available'', ''false'')] =
      ([Available False], [\<lparr>label = Some ''Out of stock'', urlParam = (''available'', ''false'')\<rparr>])"
    by (simp add: scan_eval)
  have post: "scan [(''productType'', ''Shoes'')] =
      ([KnownFilter ''productType'' ''Shoes''],
       [\<lparr>label = Some ''Shoes'', urlParam = (''productType'', ''Shoes'')\<rparr>])"
    by (simp add: scan_eval)
  have pb: "price_block
      [(''available'', ''false''), (''productVendor'', ''Acme''), (''productType'', ''Shoes'')] ([], [])
     = ([], [])"
    by (simp add: price_eval)
  from known_filter_emits [OF h, of "[(''available'', ''false'')]" "''Acme''" "[(''productType'', ''Shoes'')]"]
  show ?thesis using h by (simp add: pre post pb)
qed

subsection \<open>Variant options\<close>

lemma js_split_eq:
  "js_split sep s =
     takeWhile (\<lambda>c. c \<noteq> sep) s
       # (if sep \<in> set s then js_split sep (tl (dropWhile (\<lambda>c. c \<noteq> sep) s)) else [])"
  by (induction s) (auto split: list.splits)

lemma js_split_first: "at_index (js_split sep s) 0 = Some (takeWhile (\<lambda>c. c \<noteq> sep) s)"
  by (subst js_split_eq) (simp add: at_index_def)

lemma js_split_second:
  "at_index (js_split sep s) (Suc 0) =
     (if sep \<in> set s
      then Some (takeWhile (\<lambda>c. c \<noteq> sep) (tl (dropWhile (\<lambda>c. c \<noteq> sep) s)))
      else None)"
proof (cases "sep \<in> set s")
  case True
  have "at_index (js_split sep s) (Suc 0) = at_index (js_split sep (tl (dropWhile (\<lambda>c. c \<noteq> sep) s))) 0"
    by (subst js_split_eq) (simp add: at_index_def True)
  then show ?thesis by (simp add: True js_split_first)
next
  case False
  then show ?thesis by (subst js_split_eq) (simp add: at_index_def)
qed

lemma variant_key_not_other:
  assumes "str_includes key variantOption"
  shows "key \<noteq> available \<and> key \<notin> set knownFilters"
  using assms by (auto simp add: variantOption_def available_def knownFilters_def)

lemma scan_step_variant:
  assumes "str_includes key variantOption"
  shows "scan_step ([], []) (key, v) =
     ([VariantOption (at_index (js_split CHR '':'' v) 0) (at_index (js_split CHR '':'' v) 1)],
      [\<lparr>label = at_index (js_split CHR '':'' v) 1, urlParam = (key, v)\<rparr>])"
  using variant_key_not_other [OF assms] assms by (auto simp add: Let_def)

text \<open>
  C4, as the code has it. \<^verbatim>\<open>value.split(':')\<close> splits at every colon and the destructuring
  \<^verbatim>\<open>[name, val]\<close> keeps the first two pieces. So, wherever a parameter whose key contains
  \<^verbatim>\<open>variantOption\<close> stands in the query string, the clause is \<^verbatim>\<open>variantOption\<close> with, as name,
  the text before the first colon and, as value, the text between the first colon and the
  second (or the end of the string); the value is \<^verbatim>\<open>undefined\<close> when there is no colon. The
  descriptor's label is that same option value; the option name is not part of it.
\<close>

theorem variant_option_emits:
  assumes "str_includes key variantOption"
  shows "filters (loader (pre @ (key, v) # post)) =
           fst (scan pre)
             @ VariantOption (Some (takeWhile (\<lambda>c. c \<noteq> CHR '':'') v))
                 (if CHR '':'' \<in> set v
                  then Some (takeWhile (\<lambda>c. c \<noteq> CHR '':'') (tl (dropWhile (\<lambda>c. c \<noteq> CHR '':'') v)))
                  else None)
             # fst (scan post) @ fst (price_block (pre @ (key, v) # post) ([], []))
         \<and> appliedFilters (loader (pre @ (key, v) # post)) =
             snd (scan pre)
               @ \<lparr>label = (if CHR '':'' \<in> set v
                            then Some (takeWhile (\<lambda>c. c \<noteq> CHR '':'') (tl (dropWhile (\<lambda>c. c \<noteq> CHR '':'') v)))
                            else None),
                   urlParam = (key, v)\<rparr>
               # snd (scan post) @ snd (price_block (pre @ (key, v) # post) ([], []))"
  by (simp add: loader_filters loader_appliedFilters scan_append scan_Cons
        scan_step_variant [OF assms] js_split_first js_split_second del: scan_step.simps)

theorem variant_option_emits_witness:
  "str_includes ''filter.v.variantOption.size'' variantOption
   \<and> filters (loader [(''available'', ''true''), (''filter.v.variantOption.size'', ''Size:Large'')]) =
       [Available True, VariantOption (Some ''Size'') (Some ''Large'')]
   \<and> map label (appliedFilters (loader [(''available'', ''true''), (''filter.v.variantOption.size'', ''Size:Large'')])) =
       [Some ''In stock'', Some ''Large'']"
proof -
  have h: "str_includes ''filter.v.variantOption.size'' variantOption"
    by (simp add: variantOption_def)
  have pre: "scan [(''available'', ''true'')] =
      ([Available True], [\<lparr>label = Some ''In stock'', urlParam = (''available'', ''true'')\<rparr>])"
    by (simp add: scan_eval)
  have post: "scan [] = ([], [])" by (simp add: scan_def)
  have pb: "price_block [(''available'', ''true''), (''filter.v.variantOption.size'', ''Size:Large'')] ([], [])
     = ([], [])"
    by (simp add: price_eval)
  from variant_option_emits [OF h, of "[(''available'', ''true'')]" "''Size:Large''" "[]"]
  show ?thesis using h by (simp add: pre post pb)
qed

text \<open>
  C4, as the claim states it, fails on a value with two colons: for \<^verbatim>\<open>Size:10:30\<close> the option
  value and the label are \<^verbatim>\<open>10\<close>, not \<^verbatim>\<open>10:30\<close>.
\<close>

theorem variant_option_two_colons:
  "filters (loader [(''variantOption'', ''Size:10:30'')]) = [VariantOption (Some ''Size'') (Some ''10'')]
   \<and> map label (appliedFilters (loader [(''variantOption'', ''Size:10:30'')])) = [Some ''10'']
   \<and> ''10'' \<noteq> ''10:30''"
  by (simp add: loader_def scan_eval price_eval)

subsection \<open>The price filter\<close>

lemma sp_has_get: "sp_has sp name \<longleftrightarrow> sp_get sp name \<noteq> None"
  by (induction sp) (auto simp add: sp_has_def sp_get_def)

lemma number_or_zero_Some: "number_or_zero (Some raw) = price_bound raw"
  by (cases "StringToNumber raw") (auto simp add: number_or_zero_def price_bound_def Let_def)

lemma price_bound_not_NaN: "price_bound raw \<noteq> NaN"
  by (simp add: price_bound_def)

lemma price_block_empty:
  "price_block sp ([], []) =
     (if sp_get sp ''minPrice'' = None \<and> sp_get sp ''maxPrice'' = None then ([], [])
      else ([Price (map_option price_bound (sp_get sp ''minPrice''))
                   (map_option price_bound (sp_get sp ''maxPrice''))],
            (case sp_get sp ''minPrice'' of
               None \<Rightarrow> []
             | Some raw \<Rightarrow> [\<lparr>label = Some (''Min: $'' @ Number_toString (price_bound raw)),
                             urlParam = (''minPrice'', raw)\<rparr>])
            @ (case sp_get sp ''maxPrice'' of
                 None \<Rightarrow> []
               | Some raw \<Rightarrow> [\<lparr>label = Some (''Max: $'' @ Number_toString (price_bound raw)),
                               urlParam = (''maxPrice'', raw)\<rparr>])))"
  by (cases "sp_get sp ''minPrice''"; cases "sp_get sp ''maxPrice''")
     (simp_all add: price_block_def sp_has_get number_or_zero_Some Let_def)

text \<open>
  C3, as the code has it. When a \<^verbatim>\<open>minPrice\<close> or a \<^verbatim>\<open>maxPrice\<close> parameter is present, the
  filters end with exactly one \<^verbatim>\<open>price\<close> clause that carries exactly the bounds present, and
  the applied filters end with one descriptor per bound present, \<^verbatim>\<open>Min: $<min>\<close> before
  \<^verbatim>\<open>Max: $<max>\<close>. A bound is the Number read from the first value under the name, with \<open>0\<close>
  for a value that is not a numeric literal (NaN); no sign is checked, so a negative or
  infinite value stays as it is. In particular \<^verbatim>\<open>minPrice=abc\<close> gives the bound \<open>0\<close> and the
  label \<^verbatim>\<open>Min: $0\<close>.
\<close>

theorem price_clause_and_descriptors:
  assumes "sp_has sp ''minPrice'' \<or> sp_has sp ''maxPrice''"
  shows "filters (loader sp) =
           fst (scan sp) @ [Price (map_option price_bound (sp_get sp ''minPrice''))
                                  (map_option price_bound (sp_get sp ''maxPrice''))]
         \<and> appliedFilters (loader sp) =
             snd (scan sp)
               @ (case sp_get sp ''minPrice'' of
                    None \<Rightarrow> []
                  | Some raw \<Rightarrow> [\<lparr>label = Some (''Min: $'' @ Number_toString (price_bound raw)),
                                  urlParam = (''minPrice'', raw)\<rparr>])
               @ (case sp_get sp ''maxPrice'' of
                    None \<Rightarrow> []
                  | Some raw \<Rightarrow> [\<lparr>label = Some (''Max: $'' @ Number_toString (price_bound raw)),
                                  urlParam = (''maxPrice'', raw)\<rparr>])
         \<and> (sp_has sp ''minPrice'' \<longleftrightarrow> sp_get sp ''minPrice'' \<noteq> None)
         \<and> (sp_has sp ''maxPrice'' \<longleftrightarrow> sp_get sp ''maxPrice'' \<noteq> None)
         \<and> price_bound ''abc'' = Fin 0
         \<and> filters (loader [(''minPrice'', ''abc'')]) = [Price (Some (Fin 0)) None]
         \<and> appliedFilters (loader [(''minPrice'', ''abc'')]) =
             [\<lparr>label = Some ''Min: $0'', urlParam = (''minPrice'', ''abc'')\<rparr>]"
proof -
  have abc: "StringToNumber ''abc'' = NaN" by (simp add: parse_eval)
  have pb: "price_bound ''abc'' = Fin 0" by (simp add: price_bound_def abc)
  have g: "sp_get [(''minPrice'', ''abc'')] ''minPrice'' = Some ''abc''"
          "sp_get [(''minPrice'', ''abc'')] ''maxPrice'' = None"
    by (simp_all add: sp_get_def)
  have s: "scan [(''minPrice'', ''abc'')] = ([], [])" by (simp add: scan_eval)
  have general: "filters (loader sp) =
           fst (scan sp) @ [Price (map_option price_bound (sp_get sp ''minPrice''))
                                  (map_option price_bound (sp_get sp ''maxPrice''))]"
    using assms by (auto simp add: loader_filters price_block_empty sp_has_get)
  have general2: "appliedFilters (loader sp) =
             snd (scan sp)
               @ (case sp_get sp ''minPrice'' of
                    None \<Rightarrow> []
                  | Some raw \<Rightarrow> [\<lparr>label = Some (''Min: $'' @ Number_toString (price_bound raw)),
                                  urlParam = (''minPrice'', raw)\<rparr>])
               @ (case sp_get sp ''maxPrice'' of
                    None \<Rightarrow> []
                  | Some raw \<Rightarrow> [\<lparr>label = Some (''Max: $'' @ Number_toString (price_bound raw)),
                                  urlParam = (''maxPrice'', raw)\<rparr>])"
    using assms by (auto simp add: loader_appliedFilters price_block_empty sp_has_get)
  have i1: "filters (loader [(''minPrice'', ''abc'')]) = [Price (Some (Fin 0)) None]"
    by (simp add: loader_filters price_block_empty g s pb)
  have i2: "appliedFilters (loader [(''minPrice'', ''abc'')]) =
             [\<lparr>label = Some ''Min: $0'', urlParam = (''minPrice'', ''abc'')\<rparr>]"
    by (simp add: loader_appliedFilters price_block_empty g s pb)
  from general general2 pb i1 i2 show ?thesis by (simp add: sp_has_get)
qed

theorem price_clause_and_descriptors_witness:
  "(sp_has [(''minPrice'', ''10''), (''productType'', ''Shoes''), (''maxPrice'', ''25'')] ''minPrice''
      \<or> sp_has [(''minPrice'', ''10''), (''productType'', ''Shoes''), (''maxPrice'', ''25'')] ''maxPrice'')
   \<and> filters (loader [(''minPrice'', ''10''), (''productType'', ''Shoes''), (''maxPrice'', ''25'')]) =
       [KnownFilter ''productType'' ''Shoes'', Price (Some (Fin 10)) (Some (Fin 25))]
   \<and> map label (appliedFilters
        (loader [(''minPrice'', ''10''), (''productType'', ''Shoes''), (''maxPrice'', ''25'')])) =
       [Some ''Shoes'', Some ''Min: $10'', Some ''Max: $25'']"
proof -
  let ?sp = "[(''minPrice'', ''10''), (''productType'', ''Shoes''), (''maxPrice'', ''25'')]"
  have h: "sp_has ?sp ''minPrice'' \<or> sp_has ?sp ''maxPrice''" by (simp add: sp_has_def)
  have g: "sp_get ?sp ''minPrice'' = Some ''10''" "sp_get ?sp ''maxPrice'' = Some ''25''"
    by (simp_all add: sp_get_def)
  have n: "price_bound ''10'' = Fin 10" "price_bound ''25'' = Fin 25"
    by (simp_all add: price_bound_def parse_eval)
  have p: "Number_toString (Fin 10) = ''10''" "Number_toString (Fin 25) = ''25''"
    by (simp_all add: print_eval)
  have s: "scan ?sp = ([KnownFilter ''productType'' ''Shoes''],
                       [\<lparr>label = Some ''Shoes'', urlParam = (''productType'', ''Shoes'')\<rparr>])"
    by (simp add: scan_eval)
  from price_clause_and_descriptors [OF h] show ?thesis
    using h by (simp add: g n p s)
qed

text \<open>
  C3, as the claim states it, fails on a negative value: \<^verbatim>\<open>minPrice=-5\<close> gives the bound
  \<open>-5\<close>, which is not a non-negative number, and the label \<^verbatim>\<open>Min: $-5\<close>.
\<close>

theorem negative_price_bound:
  "filters (loader [(''minPrice'', ''-5'')]) = [Price (Some (Fin (- 5))) None]
   \<and> map label (appliedFilters (loader [(''minPrice'', ''-5'')])) = [Some ''Min: $-5'']
   \<and> (- 5 :: rat) < 0"
proof -
  have n: "price_bound ''-5'' = Fin (- 5)" by (simp add: price_bound_def parse_eval)
  have p: "Number_toString (Fin (- 5)) = ''-5''" by (simp add: print_eval)
  have g: "sp_get [(''minPrice'', ''-5'')] ''minPrice'' = Some ''-5''"
          "sp_get [(''minPrice'', ''-5'')] ''maxPrice'' = None"
    by (simp_all add: sp_get_def)
  have s: "scan [(''minPrice'', ''-5'')] = ([], [])" by (simp add: scan_eval)
  show ?thesis by (simp add: loader_filters loader_appliedFilters price_block_empty g s n p)
qed

subsection \<open>Order of the output\<close>

text \<open>
  C8. The filters are the clauses of the parameters in the order the parameters appear,
  followed by the price clause when there is one; the applied filters are the descriptors
  of the parameters in that same order, followed by the price descriptors. The price part
  is a function of the first \<^verbatim>\<open>minPrice\<close> and the first \<^verbatim>\<open>maxPrice\<close> value alone, so it does not
  depend on where those parameters stand.
\<close>

theorem filters_in_encounter_order:
  "filters (loader sp) =
     concat (map (\<lambda>e. fst (scan_step ([], []) e)) sp)
       @ (if sp_get sp ''minPrice'' = None \<and> sp_get sp ''maxPrice'' = None then []
          else [Price (map_option price_bound (sp_get sp ''minPrice''))
                      (map_option price_bound (sp_get sp ''maxPrice''))])
   \<and> appliedFilters (loader sp) =
       concat (map (\<lambda>e. snd (scan_step ([], []) e)) sp)
         @ (case sp_get sp ''minPrice'' of
              None \<Rightarrow> []
            | Some raw \<Rightarrow> [\<lparr>label = Some (''Min: $'' @ Number_toString (price_bound raw)),
                            urlParam = (''minPrice'', raw)\<rparr>])
         @ (case sp_get sp ''maxPrice'' of
              None \<Rightarrow> []
            | Some raw \<Rightarrow> [\<lparr>label = Some (''Max: $'' @ Number_toString (price_bound raw)),
                            urlParam = (''maxPrice'', raw)\<rparr>])"
  by (simp add: loader_filters loader_appliedFilters scan_concat price_block_empty)

theorem filters_in_encounter_order_witness:
  "filters (loader [(''maxPrice'', ''25''), (''productType'', ''Shoes''), (''minPrice'', ''10''),
                    (''available'', ''true''), (''color'', ''red''), (''productVendor'', ''Acme'')]) =
     [KnownFilter ''productType'' ''Shoes'', Available True, KnownFilter ''productVendor'' ''Acme'',
      Price (Some (Fin 10)) (Some (Fin 25))]
   \<and> map label (appliedFilters
         (loader [(''maxPrice'', ''25''), (''productType'', ''Shoes''), (''minPrice'', ''10''),
                  (''available'', ''true''), (''color'', ''red''), (''productVendor'', ''Acme'')])) =
       [Some ''Shoes'', Some ''In stock'', Some ''Acme'', Some ''Min: $10'', Some ''Max: $25'']"
proof -
  let ?sp = "[(''maxPrice'', ''25''), (''productType'', ''Shoes''), (''minPrice'', ''10''),
              (''available'', ''true''), (''color'', ''red''), (''productVendor'', ''Acme'')]"
  have g: "sp_get ?sp ''minPrice'' = Some ''10''" "sp_get ?sp ''maxPrice'' = Some ''25''"
    by (simp_all add: sp_get_def)
  have n: "price_bound ''10'' = Fin 10" "price_bound ''25'' = Fin 25"
    by (simp_all add: price_bound_def parse_eval)
  have p: "Number_toString (Fin 10) = ''10''" "Number_toString (Fin 25) = ''25''"
    by (simp_all add: print_eval)
  from filters_in_encounter_order [of ?sp] show ?thesis
    by (simp add: g n p available_def knownFilters_def variantOption_def)
qed

section \<open>Properties of the product route\<close>

subsection \<open>Recommended products\<close>

lemma findIndex_from_none:
  "0 \<le> i \<Longrightarrow> findIndex_from P i xs = - 1 \<longleftrightarrow> (\<forall>x \<in> set xs. \<not> P x)"
proof (induction xs arbitrary: i)
  case Nil
  then show ?case by simp
next
  case (Cons x xs)
  have "0 \<le> i + 1" using Cons.prems by simp
  from Cons.IH [OF this] Cons.prems show ?case by auto
qed

lemma findIndex_from_some:
  "\<exists>x \<in> set xs. P x
     \<Longrightarrow> findIndex_from P i xs = i + int (length (takeWhile (\<lambda>x. \<not> P x) xs))"
proof (induction xs arbitrary: i)
  case Nil
  then show ?case by simp
next
  case (Cons x xs)
  show ?case
  proof (cases "P x")
    case True
    then show ?thesis by simp
  next
    case False
    with Cons.prems have ex: "\<exists>x \<in> set xs. P x" by auto
    from Cons.IH [OF ex, of "i + 1"] False show ?thesis by simp
  qed
qed

lemma takeWhile_short:
  assumes "x \<in> set xs" "\<not> Q x"
  shows "length (takeWhile Q xs) < length xs"
proof -
  have "takeWhile Q xs \<noteq> xs" using assms by (auto simp add: takeWhile_eq_all_conv)
  moreover have "takeWhile Q xs = take (length (takeWhile Q xs)) xs"
    by (rule takeWhile_eq_take)
  moreover have "length (takeWhile Q xs) \<le> length xs" by (rule length_takeWhile_le)
  ultimately show ?thesis by (cases "length (takeWhile Q xs) = length xs") auto
qed

lemma takeWhile_length_prefix:
  assumes "P y"
  shows "length (takeWhile (\<lambda>x. \<not> P x) (pre @ y # ys)) = length pre \<longleftrightarrow> (\<forall>x \<in> set pre. \<not> P x)"
proof (cases "\<forall>x \<in> set pre. \<not> P x")
  case True
  then show ?thesis using assms by (simp add: takeWhile_append2)
next
  case False
  then obtain x where x: "x \<in> set pre" "\<not> \<not> P x" by auto
  have "takeWhile (\<lambda>x. \<not> P x) (pre @ y # ys) = takeWhile (\<lambda>x. \<not> P x) pre"
    using x by (rule takeWhile_append1)
  moreover have "length (takeWhile (\<lambda>x. \<not> P x) pre) < length pre"
    using x by (rule takeWhile_short)
  ultimately show ?thesis using False by simp
qed

lemma first_occurrence_test:
  "findIndex (\<lambda>value2. product_id value2 = product_id y) (pre @ y # ys) = int (length pre)
     \<longleftrightarrow> product_id y \<notin> product_id ` set pre"
proof -
  have ex: "\<exists>x \<in> set (pre @ y # ys). product_id x = product_id y" by simp
  have eq: "findIndex (\<lambda>value2. product_id value2 = product_id y) (pre @ y # ys)
          = int (length (takeWhile (\<lambda>x. \<not> product_id x = product_id y) (pre @ y # ys)))"
    unfolding findIndex_def by (subst findIndex_from_some [OF ex]) simp
  have "length (takeWhile (\<lambda>x. \<not> product_id x = product_id y) (pre @ y # ys)) = length pre
          \<longleftrightarrow> (\<forall>x \<in> set pre. \<not> product_id x = product_id y)"
    by (rule takeWhile_length_prefix) simp
  then show ?thesis unfolding eq by (simp only: of_nat_eq_iff) (auto simp add: image_iff)
qed

lemma filter_from_prefix:
  "map fst (filter (\<lambda>(v, i). findIndex (\<lambda>value2. product_id value2 = product_id v) (pre @ ys) = int i)
              (zip ys [length pre ..< length pre + length ys]))
   = dedup_by_id (filter (\<lambda>q. product_id q \<notin> product_id ` set pre) ys)"
proof (induction ys arbitrary: pre)
  case Nil
  show ?case by simp
next
  case (Cons y ys)
  have "length pre < length pre + length (y # ys)" by simp
  from upt_conv_Cons [OF this]
  have upt: "[length pre ..< length pre + length (y # ys)]
               = length pre # [length (pre @ [y]) ..< length (pre @ [y]) + length ys]"
    by simp
  have arr: "pre @ y # ys = (pre @ [y]) @ ys" by simp
  have IH: "map fst (filter (\<lambda>(v, i). findIndex (\<lambda>value2. product_id value2 = product_id v) (pre @ y # ys) = int i)
              (zip ys [length (pre @ [y]) ..< length (pre @ [y]) + length ys]))
          = dedup_by_id (filter (\<lambda>q. product_id q \<notin> product_id ` set (pre @ [y])) ys)"
    unfolding arr by (rule Cons.IH)
  show ?case
  proof (cases "product_id y \<in> product_id ` set pre")
    case True
    then have "filter (\<lambda>q. product_id q \<notin> product_id ` set (pre @ [y])) ys
                 = filter (\<lambda>q. product_id q \<notin> product_id ` set pre) ys"
      by (intro filter_cong) (auto simp add: image_iff)
    with IH have IH': "map fst (filter (\<lambda>(v, i). findIndex (\<lambda>value2. product_id value2 = product_id v) (pre @ y # ys) = int i)
              (zip ys [length (pre @ [y]) ..< length (pre @ [y]) + length ys]))
          = dedup_by_id (filter (\<lambda>q. product_id q \<notin> product_id ` set pre) ys)"
      by simp
    from True have t: "(product_id y \<notin> product_id ` set pre) = False" by simp
    show ?thesis
      unfolding upt
      by (simp only: zip_Cons_Cons filter.simps prod.case first_occurrence_test IH' t if_False)
  next
    case False
    have "filter (\<lambda>q. product_id q \<notin> product_id ` set (pre @ [y])) ys
            = filter (\<lambda>q. product_id q \<noteq> product_id y) (filter (\<lambda>q. product_id q \<notin> product_id ` set pre) ys)"
      unfolding filter_filter by (intro filter_cong) (auto simp add: image_iff)
    with IH have IH': "map fst (filter (\<lambda>(v, i). findIndex (\<lambda>value2. product_id value2 = product_id v) (pre @ y # ys) = int i)
              (zip ys [length (pre @ [y]) ..< length (pre @ [y]) + length ys]))
          = dedup_by_id (filter (\<lambda>q. product_id q \<noteq> product_id y)
               (filter (\<lambda>q. product_id q \<notin> product_id ` set pre) ys))"
      by simp
    from False have t: "(product_id y \<notin> product_id ` set pre) = True" by simp
    show ?thesis
      unfolding upt
      by (simp only: zip_Cons_Cons filter.simps prod.case first_occurrence_test IH' list.map fst_conv
            t if_True dedup_by_id.simps)
  qed
qed

lemma filter_indexed_dedup:
  "filter_indexed
     (\<lambda>value index array. findIndex (\<lambda>value2. product_id value2 = product_id value) array = int index) xs
   = dedup_by_id xs"
  using filter_from_prefix [of "[]" xs] by (simp add: filter_indexed_def)

lemma dedup_by_id_subset: "set (dedup_by_id xs) \<subseteq> set xs"
  by (induction xs rule: dedup_by_id.induct) auto

lemma dedup_by_id_distinct: "distinct (map product_id (dedup_by_id xs))"
proof (induction xs rule: dedup_by_id.induct)
  case 1
  show ?case by simp
next
  case (2 p ps)
  have "product_id p \<notin> product_id ` set (dedup_by_id (filter (\<lambda>q. product_id q \<noteq> product_id p) ps))"
    using dedup_by_id_subset [of "filter (\<lambda>q. product_id q \<noteq> product_id p) ps"] by auto
  with 2 show ?case by simp
qed

lemma dedup_by_id_ids: "product_id ` set (dedup_by_id xs) = product_id ` set xs"
proof (induction xs rule: dedup_by_id.induct)
  case 1
  show ?case by simp
next
  case (2 p ps)
  then show ?case by auto
qed

lemma splice_at_found:
  assumes "distinct (map f d)" "a \<in> f ` set d"
  shows "splice (indexOf a (map f d)) 1 d = filter (\<lambda>p. f p \<noteq> a) d"
proof -
  define n where "n = length (takeWhile (\<lambda>x. x \<noteq> a) (map f d))"
  have ex: "\<exists>x \<in> set (map f d). x = a" using assms(2) by auto
  have idx: "indexOf a (map f d) = int n"
    unfolding indexOf_def n_def by (subst findIndex_from_some [OF ex]) simp
  from assms(2) obtain x where "x \<in> set (map f d)" "\<not> x \<noteq> a" by auto
  then have "length (takeWhile (\<lambda>x. x \<noteq> a) (map f d)) < length (map f d)"
    by (rule takeWhile_short)
  then have nlt: "n < length d" by (simp add: n_def)
  have rem: "take n d @ drop (Suc n) d = filter (\<lambda>p. f p \<noteq> a) d"
    using assms unfolding n_def
  proof (induction d)
    case Nil
    then show ?case by simp
  next
    case (Cons x d)
    show ?case
    proof (cases "f x = a")
      case True
      with Cons.prems(1) have "\<forall>p \<in> set d. f p \<noteq> a" by (auto simp add: image_iff)
      then have "filter (\<lambda>p. f p \<noteq> a) d = d" by (simp add: filter_id_conv)
      with True show ?thesis by simp
    next
      case False
      with Cons.prems have "distinct (map f d)" "a \<in> f ` set d" by auto
      from Cons.IH [OF this] False show ?thesis by simp
    qed
  qed
  have suc: "nat (int n + 1) = Suc n" by simp
  show ?thesis using nlt by (simp add: splice_def idx Let_def rem [symmetric] min_def suc)
qed

lemma splice_not_found: "splice (- 1) 1 d = butlast d"
  by (cases "d = []") (simp_all add: splice_def Let_def butlast_conv_take nat_diff_distrib')

text \<open>
  C9. For every storefront response, \<open>getRecommendedProducts\<close> returns the \<^verbatim>\<open>additional\<close>
  products deduplicated by id, the first product of each id kept, whatever the
  \<^verbatim>\<open>recommended\<close> list was; from these, the product with the id \<open>productId\<close> is removed when
  there is one (there is at most one, the ids being distinct), and otherwise
  \<^verbatim>\<open>splice(-1, 1)\<close> removes the last product (\<open>butlast\<close>; of an empty list nothing is left to
  remove).
\<close>

theorem getRecommendedProducts_result:
  "getRecommendedProducts (Some r) productId =
     Inr (if productId \<in> product_id ` set (dedup_by_id (additional_nodes r))
          then filter (\<lambda>p. product_id p \<noteq> productId) (dedup_by_id (additional_nodes r))
          else butlast (dedup_by_id (additional_nodes r)))
   \<and> distinct (map product_id (dedup_by_id (additional_nodes r)))
   \<and> product_id ` set (dedup_by_id (additional_nodes r)) = product_id ` set (additional_nodes r)"
proof -
  let ?d = "dedup_by_id (additional_nodes r)"
  have m: "filter_indexed
      (\<lambda>value index array. findIndex (\<lambda>value2. product_id value2 = product_id value) array = int index)
      (additional_nodes r) = ?d"
    by (rule filter_indexed_dedup)
  have found: "productId \<in> product_id ` set ?d
        \<Longrightarrow> splice (indexOf productId (map product_id ?d)) 1 ?d
             = filter (\<lambda>p. product_id p \<noteq> productId) ?d"
    by (rule splice_at_found [OF dedup_by_id_distinct])
  have missing: "productId \<notin> product_id ` set ?d
        \<Longrightarrow> splice (indexOf productId (map product_id ?d)) 1 ?d = butlast ?d"
  proof -
    assume "productId \<notin> product_id ` set ?d"
    then have "\<forall>x \<in> set (map product_id ?d). \<not> x = productId" by auto
    then have "indexOf productId (map product_id ?d) = - 1"
      unfolding indexOf_def by (subst findIndex_from_none) simp_all
    then show ?thesis by (simp add: splice_not_found)
  qed
  show ?thesis
    using found missing
    by (simp add: getRecommendedProducts_def Let_def m dedup_by_id_distinct dedup_by_id_ids)
qed

theorem getRecommendedProducts_result_witness:
  "getRecommendedProducts
     (Some \<lparr>recommended = [\<lparr>product_id = ''r''\<rparr>],
            additional_nodes = [\<lparr>product_id = ''a''\<rparr>, \<lparr>product_id = ''b''\<rparr>,
                                \<lparr>product_id = ''a''\<rparr>, \<lparr>product_id = ''c''\<rparr>]\<rparr>) ''b''
     = Inr [\<lparr>product_id = ''a''\<rparr>, \<lparr>product_id = ''c''\<rparr>]
   \<and> getRecommendedProducts
     (Some \<lparr>recommended = [\<lparr>product_id = ''r''\<rparr>],
            additional_nodes = [\<lparr>product_id = ''a''\<rparr>, \<lparr>product_id = ''b''\<rparr>,
                                \<lparr>product_id = ''a''\<rparr>, \<lparr>product_id = ''c''\<rparr>]\<rparr>) ''zz''
     = Inr [\<lparr>product_id = ''a''\<rparr>, \<lparr>product_id = ''b''\<rparr>]"
proof -
  let ?r = "\<lparr>recommended = [\<lparr>product_id = ''r''\<rparr>],
            additional_nodes = [\<lparr>product_id = ''a''\<rparr>, \<lparr>product_id = ''b''\<rparr>,
                                \<lparr>product_id = ''a''\<rparr>, \<lparr>product_id = ''c''\<rparr>]\<rparr>"
  have d: "dedup_by_id (additional_nodes ?r) =
             [\<lparr>product_id = ''a''\<rparr>, \<lparr>product_id = ''b''\<rparr>, \<lparr>product_id = ''c''\<rparr>]"
    by simp
  from getRecommendedProducts_result [of ?r "''b''"] getRecommendedProducts_result [of ?r "''zz''"]
  show ?thesis unfolding d by simp
qed

subsection \<open>Paging through the review service\<close>

lemma getReviewsWithID_from_pages:
  assumes "fetch k = Inr []"
    and "\<forall>p. page \<le> p \<and> p < k \<longrightarrow> (\<exists>rs. fetch p = Inr rs \<and> rs \<noteq> [])"
    and "page \<le> k"
  shows "getReviewsWithID_from fetch externalID page products requested =
           Some (Inr (products @ concat (map (\<lambda>p. filter (\<lambda>r. product_external_id r = externalID)
                                               (page_reviews fetch p)) [page ..< k]),
                      requested @ [page ..< Suc k]))"
  using assms(2,3)
proof (induction "k - page" arbitrary: page products requested)
  case 0
  then have "page = k" by simp
  then show ?case
    by (subst getReviewsWithID_from.simps) (simp add: assms(1))
next
  case (Suc n)
  then have lt: "page < k" by simp
  with Suc.prems(1) obtain rs where rs: "fetch page = Inr rs" "rs \<noteq> []" by blast
  have n: "n = k - (page + 1)" using Suc.hyps(2) by simp
  have later: "\<forall>p. page + 1 \<le> p \<and> p < k \<longrightarrow> (\<exists>rs. fetch p = Inr rs \<and> rs \<noteq> [])"
    using Suc.prems(1) by simp
  have le: "page + 1 \<le> k" using lt by simp
  have step: "getReviewsWithID_from fetch externalID page products requested =
      getReviewsWithID_from fetch externalID (page + 1)
        (products @ filter (\<lambda>r. product_external_id r = externalID) rs) (requested @ [page])"
    by (subst getReviewsWithID_from.simps) (simp add: rs)
  have pr: "page_reviews fetch page = rs" by (simp add: page_reviews_def rs)
  have u1: "[page ..< k] = page # [page + 1 ..< k]" using lt by (simp add: upt_conv_Cons)
  have u2: "[page ..< Suc k] = page # [page + 1 ..< Suc k]" using lt by (simp add: upt_conv_Cons)
  show ?case
    unfolding step Suc.hyps(1) [OF n later le] u1 u2 by (simp add: pr)
qed

text \<open>
  C2. Let page \<open>k\<close> be the first empty page of the review service, every page before it
  answering with a non-empty list. Then, for every product identifier, \<open>getReviewsWithID\<close>
  returns; the pages it requested are \<open>1, 2, \<dots>, k\<close> in this order, one after the other and
  none after the empty one; and its result is exactly the records of the pages
  \<open>1, \<dots>, k - 1\<close> whose \<^verbatim>\<open>product_external_id\<close> equals the identifier, in page order and,
  within a page, in the page's order.
\<close>

theorem getReviewsWithID_pages:
  assumes "1 \<le> k"
    and "fetch k = Inr []"
    and "\<forall>p. 1 \<le> p \<and> p < k \<longrightarrow> (\<exists>rs. fetch p = Inr rs \<and> rs \<noteq> [])"
  shows "getReviewsWithID fetch externalID =
           Some (Inr (concat (map (\<lambda>p. filter (\<lambda>r. product_external_id r = externalID)
                                     (page_reviews fetch p)) [1 ..< k]),
                      [1 ..< Suc k]))"
  unfolding getReviewsWithID_def
  using getReviewsWithID_from_pages [OF assms(2) assms(3) assms(1), of externalID "[]" "[]"]
  by simp

theorem getReviewsWithID_pages_witness:
  "(1::nat) \<le> 3
   \<and> (\<lambda>p. if p = 1 then Inr [\<lparr>product_external_id = ''p1'', rating = Some (Fin 5)\<rparr>,
                                \<lparr>product_external_id = ''p2'', rating = Some (Fin 4)\<rparr>]
            else if p = 2 then Inr [\<lparr>product_external_id = ''p1'', rating = Some (Fin 3)\<rparr>]
            else (Inr [] :: unit + review list)) (3::nat) = Inr []
   \<and> getReviewsWithID
        (\<lambda>p. if p = 1 then Inr [\<lparr>product_external_id = ''p1'', rating = Some (Fin 5)\<rparr>,
                                \<lparr>product_external_id = ''p2'', rating = Some (Fin 4)\<rparr>]
            else if p = 2 then Inr [\<lparr>product_external_id = ''p1'', rating = Some (Fin 3)\<rparr>]
            else (Inr [] :: unit + review list)) ''p1''
       = Some (Inr ([\<lparr>product_external_id = ''p1'', rating = Some (Fin 5)\<rparr>,
                     \<lparr>product_external_id = ''p1'', rating = Some (Fin 3)\<rparr>], [1, 2, 3]))"
proof -
  let ?fetch = "\<lambda>p::nat. if p = 1 then Inr [\<lparr>product_external_id = ''p1'', rating = Some (Fin 5)\<rparr>,
                                \<lparr>product_external_id = ''p2'', rating = Some (Fin 4)\<rparr>]
            else if p = 2 then Inr [\<lparr>product_external_id = ''p1'', rating = Some (Fin 3)\<rparr>]
            else (Inr [] :: unit + review list)"
  have h1: "(1::nat) \<le> 3" by simp
  have h2: "?fetch 3 = Inr []" by simp
  have h3: "\<forall>p. 1 \<le> p \<and> p < 3 \<longrightarrow> (\<exists>rs. ?fetch p = Inr rs \<and> rs \<noteq> [])" by auto
  have u: "[Suc 0 ..< 3] = [Suc 0, 2]" "[Suc 0 ..< 4] = [Suc 0, 2, 3]" by (simp_all add: upt_rec)
  from getReviewsWithID_pages [OF h1 h2 h3, of "''p1''"]
  show ?thesis by (simp add: u page_reviews_def)
qed

subsection \<open>The review summary\<close>

lemma counted_ratings_Cons:
  "counted_ratings (r # rs) =
     (case rating r of None \<Rightarrow> [] | Some x \<Rightarrow> if truthy x then [x] else []) @ counted_ratings rs"
  by (simp add: counted_ratings_def)

lemma counted_ratings_append: "counted_ratings (xs @ ys) = counted_ratings xs @ counted_ratings ys"
  by (simp add: counted_ratings_def)

lemma counted_ratings_falsy: "falsy_rating r \<Longrightarrow> counted_ratings (r # rs) = counted_ratings rs"
  by (auto simp add: counted_ratings_Cons falsy_rating_def split: option.splits)

lemma rating_loop_foldl:
  "rating_loop rs i sumKey = foldl js_add sumKey (counted_ratings (drop i rs))"
proof (induction rs i sumKey rule: rating_loop.induct)
  case (1 rs i sumKey)
  show ?case
  proof (cases "i < length rs")
    case True
    then have d: "drop i rs = rs ! i # drop (i + 1) rs"
      by (simp add: Cons_nth_drop_Suc)
    from True "1.IH" [OF True] show ?thesis
      by (subst rating_loop.simps) (simp add: d counted_ratings_Cons split: option.splits)
  next
    case False
    then show ?thesis
      by (subst rating_loop.simps) (simp add: counted_ratings_def)
  qed
qed

lemma rating_loop_sum: "rating_loop rs 0 (Fin 0) = rating_sum rs"
  by (simp add: rating_loop_foldl rating_sum_def)

lemma getAverageRating_formula:
  "getAverageRating rs =
     (if js_gt0 (rating_sum rs)
      then JStr (toFixed 2
             (js_mul (js_div (rating_sum rs) (js_mul (Fin (of_nat (length rs))) (Fin 5)))
                     (Fin 5)))
      else JNum (Fin 0))"
  by (simp add: getAverageRating_def Let_def rating_loop_sum)

lemma rating_sum_Nil: "rating_sum [] = Fin 0"
  by (simp add: rating_sum_def counted_ratings_def)

lemma rating_sum_skip:
  assumes "falsy_rating r"
  shows "rating_sum (xs @ r # ys) = rating_sum (xs @ ys)"
  by (simp add: rating_sum_def counted_ratings_append counted_ratings_falsy [OF assms])

lemma rating_sum_all_falsy:
  assumes "\<forall>r \<in> set rs. falsy_rating r"
  shows "rating_sum rs = Fin 0"
proof -
  have "counted_ratings rs = []"
    using assms by (induction rs) (simp_all add: counted_ratings_falsy, simp add: counted_ratings_def)
  then show ?thesis by (simp add: rating_sum_def)
qed

lemma foldl_js_add_bound:
  assumes "\<forall>x \<in> set xs. \<exists>a. x = Fin a \<and> 0 \<le> a \<and> a \<le> 5"
    and "0 \<le> t" and "t + 6 * of_nat (length xs) < 2 ^ 53"
  shows "\<exists>u. foldl js_add (Fin t) xs = Fin u \<and> 0 \<le> u \<and> u \<le> t + 6 * of_nat (length xs)"
  using assms
proof (induction xs arbitrary: t)
  case Nil
  then show ?case by simp
next
  case (Cons x xs)
  from Cons.prems(1) obtain a where a: "x = Fin a" "0 \<le> a" "a \<le> 5" by auto
  have len: "t + 6 * of_nat (length (x # xs)) = t + 6 + 6 * of_nat (length xs)"
    by (simp add: algebra_simps)
  have "0 \<le> t + a" using Cons.prems(2) a(2) by simp
  moreover have "t + a < 2 ^ 53" using Cons.prems(3) a(3) unfolding len by simp
  ultimately obtain r where r: "fl (t + a) = Fin r" "0 \<le> r" "r \<le> t + a + 1"
    using fl_small_nonneg by blast
  have rest: "\<forall>x \<in> set xs. \<exists>a. x = Fin a \<and> 0 \<le> a \<and> a \<le> 5" using Cons.prems(1) by simp
  have rb: "r + 6 * of_nat (length xs) < 2 ^ 53"
    using Cons.prems(3) r(3) a(3) unfolding len by simp
  from Cons.IH [OF rest r(2) rb] obtain u
    where u: "foldl js_add (Fin r) xs = Fin u" "0 \<le> u" "u \<le> r + 6 * of_nat (length xs)" by blast
  have "foldl js_add (Fin t) (x # xs) = Fin u" by (simp add: a(1) r(1) u(1))
  moreover have "u \<le> t + 6 * of_nat (length (x # xs))"
    using u(3) r(3) a(3) unfolding len by simp
  ultimately show ?case using u(2) by blast
qed

lemma counted_ratings_in_range:
  assumes "list_all rating_in_range rs"
  shows "\<forall>x \<in> set (counted_ratings rs). \<exists>a. x = Fin a \<and> 0 \<le> a \<and> a \<le> 5"
  using assms
  by (induction rs)
     (auto simp add: counted_ratings_Cons counted_ratings_def rating_in_range_def
        split: option.splits jsnum.splits if_splits)

lemma counted_ratings_length: "length (counted_ratings rs) \<le> length rs"
  by (induction rs) (auto simp add: counted_ratings_Cons counted_ratings_def split: option.splits)

lemma rating_sum_bound:
  assumes "list_all rating_in_range rs" "length rs < 2 ^ 32"
  shows "\<exists>u. rating_sum rs = Fin u \<and> 0 \<le> u \<and> u \<le> 6 * of_nat (length rs)"
proof -
  have l: "(of_nat (length (counted_ratings rs)) :: rat) \<le> of_nat (length rs)"
    using counted_ratings_length [of rs] by (simp only: of_nat_le_iff)
  have "(of_nat (length rs) :: rat) < of_nat (2 ^ 32)" using assms(2) by (simp only: of_nat_less_iff)
  then have n: "(of_nat (length rs) :: rat) < 2 ^ 32" by simp
  have b: "0 + 6 * (of_nat (length (counted_ratings rs)) :: rat) < 2 ^ 53" using l n by simp
  from foldl_js_add_bound [OF counted_ratings_in_range [OF assms(1)] order_refl b]
  obtain u where "foldl js_add (Fin 0) (counted_ratings rs) = Fin u" "0 \<le> u"
      "u \<le> 0 + 6 * of_nat (length (counted_ratings rs))" by blast
  then show ?thesis using l by (auto simp add: rating_sum_def)
qed

lemma average_in_range:
  assumes "list_all rating_in_range rs" "length rs < 2 ^ 32" "js_gt0 (rating_sum rs)"
  shows "\<exists>q. js_mul (js_div (rating_sum rs) (js_mul (Fin (of_nat (length rs))) (Fin 5))) (Fin 5) = Fin q
              \<and> 0 \<le> q \<and> q < 10 ^ 21"
proof -
  from rating_sum_bound [OF assms(1,2)] obtain u
    where u: "rating_sum rs = Fin u" "0 \<le> u" "u \<le> 6 * of_nat (length rs)" by blast
  have "rs \<noteq> []" using assms(3) by (auto simp add: rating_sum_Nil)
  then have n0: "(0::rat) < of_nat (length rs)" by simp
  have d: "js_mul (Fin (of_nat (length rs))) (Fin 5) = Fin (of_nat (length rs) * 5)"
    using assms(2) by (rule denominator_exact)
  define q1 where "q1 = u / (of_nat (length rs) * 5)"
  have q1: "0 \<le> q1" "q1 \<le> 6 / 5"
    using u(2,3) n0 by (simp_all add: q1_def divide_simps)
  then have "q1 < 2 ^ 53" by simp
  with q1(1) obtain r1 where r1: "fl q1 = Fin r1" "0 \<le> r1" "r1 \<le> q1 + 1"
    using fl_small_nonneg by blast
  have dv: "js_div (rating_sum rs) (Fin (of_nat (length rs) * 5)) = Fin r1"
    using n0 by (simp add: u(1) q1_def [symmetric] r1(1))
  have "0 \<le> r1 * 5" "r1 * 5 < 2 ^ 53" using r1(2,3) q1(2) by simp_all
  then obtain r2 where r2: "fl (r1 * 5) = Fin r2" "0 \<le> r2" "r2 \<le> r1 * 5 + 1"
    using fl_small_nonneg by blast
  have "js_mul (js_div (rating_sum rs) (js_mul (Fin (of_nat (length rs))) (Fin 5))) (Fin 5) = Fin r2"
    unfolding d dv by (simp add: r2(1))
  moreover have "r2 < 10 ^ 21" using r2(3) r1(3) q1(2) by simp
  ultimately show ?thesis using r2(2) by blast
qed

text \<open>
  C1. For every list of review records the summary holds the list itself, its length as
  \<^verbatim>\<open>totalReviews\<close>, and as \<^verbatim>\<open>averageRating\<close>: when the rating sum is positive, the string
  \<^verbatim>\<open>((sum / (count * 5)) * 5).toFixed(2)\<close>, each operation a binary64 operation; otherwise
  the Number \<open>0\<close>, which is the case in particular when the list is empty or the rating sum
  is zero. The rating sum adds the ratings from left to right; a missing or falsy rating
  adds nothing. For records of the data model (ratings between \<open>0\<close> and \<open>5\<close>, fewer than
  \<open>2\<^sup>3\<^sup>2\<close> of them) the computed average is a finite number between \<open>0\<close> and \<open>10\<^sup>2\<^sup>1\<close>, and
  the string is that number rounded to two decimals in fixed-point notation; the same
  holds for any list whose computed average is finite and below \<open>10\<^sup>2\<^sup>1\<close> in magnitude, with a
  minus sign in front when it is negative.
\<close>

theorem getProductReviews_summary:
  "reviews (getProductReviews myData) = myData
   \<and> totalReviews (getProductReviews myData) = length myData
   \<and> averageRating (getProductReviews myData) =
       (if js_gt0 (rating_sum myData)
        then JStr (toFixed 2
               (js_mul (js_div (rating_sum myData) (js_mul (Fin (of_nat (length myData))) (Fin 5)))
                       (Fin 5)))
        else JNum (Fin 0))
   \<and> (myData = [] \<or> rating_sum myData = Fin 0
        \<longrightarrow> averageRating (getProductReviews myData) = JNum (Fin 0))
   \<and> (js_gt0 (rating_sum myData) \<and> length myData < 2 ^ 32 \<and> list_all rating_in_range myData
        \<longrightarrow> (\<exists>q. js_mul (js_div (rating_sum myData) (js_mul (Fin (of_nat (length myData))) (Fin 5)))
                        (Fin 5) = Fin q
                  \<and> 0 \<le> q \<and> q < 10 ^ 21
                  \<and> averageRating (getProductReviews myData) = JStr (two_decimals q)))
   \<and> (\<forall>q. js_gt0 (rating_sum myData)
            \<and> js_mul (js_div (rating_sum myData) (js_mul (Fin (of_nat (length myData))) (Fin 5)))
                      (Fin 5) = Fin q
            \<and> \<bar>q\<bar> < 10 ^ 21
          \<longrightarrow> averageRating (getProductReviews myData) =
                JStr ((if q < 0 then ''-'' else []) @ two_decimals \<bar>q\<bar>))"
proof -
  let ?avg = "js_mul (js_div (rating_sum myData) (js_mul (Fin (of_nat (length myData))) (Fin 5))) (Fin 5)"
  have sel: "reviews (getProductReviews myData) = myData"
            "totalReviews (getProductReviews myData) = length myData"
    by (simp_all add: getProductReviews_def Let_def)
  have avg: "averageRating (getProductReviews myData) =
       (if js_gt0 (rating_sum myData) then JStr (toFixed 2 ?avg) else JNum (Fin 0))"
    by (simp add: getProductReviews_def Let_def getAverageRating_formula)
  have zero: "myData = [] \<or> rating_sum myData = Fin 0
        \<longrightarrow> averageRating (getProductReviews myData) = JNum (Fin 0)"
    by (auto simp add: avg rating_sum_Nil)
  have wide: "\<forall>q. js_gt0 (rating_sum myData) \<and> ?avg = Fin q \<and> \<bar>q\<bar> < 10 ^ 21
          \<longrightarrow> averageRating (getProductReviews myData) =
                JStr ((if q < 0 then ''-'' else []) @ two_decimals \<bar>q\<bar>)"
    by (simp add: avg toFixed_two_decimals)
  have model: "js_gt0 (rating_sum myData) \<and> length myData < 2 ^ 32 \<and> list_all rating_in_range myData
        \<longrightarrow> (\<exists>q. ?avg = Fin q \<and> 0 \<le> q \<and> q < 10 ^ 21
                  \<and> averageRating (getProductReviews myData) = JStr (two_decimals q))"
  proof
    assume h: "js_gt0 (rating_sum myData) \<and> length myData < 2 ^ 32 \<and> list_all rating_in_range myData"
    then obtain q where q: "?avg = Fin q" "0 \<le> q" "q < 10 ^ 21"
      using average_in_range [of myData] by blast
    then have "\<bar>q\<bar> < 10 ^ 21" "\<not> q < 0" "\<bar>q\<bar> = q" by simp_all
    with wide h q(1) have "averageRating (getProductReviews myData) = JStr (two_decimals q)"
      by simp
    with q show "\<exists>q. ?avg = Fin q \<and> 0 \<le> q \<and> q < 10 ^ 21
                  \<and> averageRating (getProductReviews myData) = JStr (two_decimals q)"
      by blast
  qed
  from sel avg zero model wide show ?thesis by blast
qed

theorem getProductReviews_summary_witness:
  "rating_sum [\<lparr>product_external_id = ''p1'', rating = Some (Fin 0)\<rparr>,
               \<lparr>product_external_id = ''p1'', rating = None\<rparr>] = Fin 0
   \<and> getProductReviews [\<lparr>product_external_id = ''p1'', rating = Some (Fin 0)\<rparr>,
                        \<lparr>product_external_id = ''p1'', rating = None\<rparr>]
       = \<lparr>reviews = [\<lparr>product_external_id = ''p1'', rating = Some (Fin 0)\<rparr>,
                     \<lparr>product_external_id = ''p1'', rating = None\<rparr>],
          totalReviews = 2, averageRating = JNum (Fin 0)\<rparr>
   \<and> js_gt0 (rating_sum [\<lparr>product_external_id = ''p1'', rating = Some (Fin 5)\<rparr>,
                          \<lparr>product_external_id = ''p1'', rating = Some (Fin 4)\<rparr>,
                          \<lparr>product_external_id = ''p1'', rating = Some (Fin 3)\<rparr>])
   \<and> length [\<lparr>product_external_id = ''p1'', rating = Some (Fin 5)\<rparr>,
             \<lparr>product_external_id = ''p1'', rating = Some (Fin 4)\<rparr>,
             \<lparr>product_external_id = ''p1'', rating = Some (Fin 3)\<rparr>] < 2 ^ 32
   \<and> list_all rating_in_range [\<lparr>product_external_id = ''p1'', rating = Some (Fin 5)\<rparr>,
                               \<lparr>product_external_id = ''p1'', rating = Some (Fin 4)\<rparr>,
                               \<lparr>product_external_id = ''p1'', rating = Some (Fin 3)\<rparr>]
   \<and> getProductReviews [\<lparr>product_external_id = ''p1'', rating = Some (Fin 5)\<rparr>,
                        \<lparr>product_external_id = ''p1'', rating = Some (Fin 4)\<rparr>,
                        \<lparr>product_external_id = ''p1'', rating = Some (Fin 3)\<rparr>]
       = \<lparr>reviews = [\<lparr>product_external_id = ''p1'', rating = Some (Fin 5)\<rparr>,
                     \<lparr>product_external_id = ''p1'', rating = Some (Fin 4)\<rparr>,
                     \<lparr>product_external_id = ''p1'', rating = Some (Fin 3)\<rparr>],
          totalReviews = 3, averageRating = JStr ''4.00''\<rparr>"
proof -
  let ?a = "[\<lparr>product_external_id = ''p1'', rating = Some (Fin 0)\<rparr>,
             \<lparr>product_external_id = ''p1'', rating = None\<rparr>]"
  let ?b = "[\<lparr>product_external_id = ''p1'', rating = Some (Fin 5)\<rparr>,
             \<lparr>product_external_id = ''p1'', rating = Some (Fin 4)\<rparr>,
             \<lparr>product_external_id = ''p1'', rating = Some (Fin 3)\<rparr>]"
  have sa: "rating_sum ?a = Fin 0" by (simp add: rating_sum_def counted_ratings_def)
  have sb: "rating_sum ?b = Fin 12" by (simp add: rating_sum_def counted_ratings_def)
  have h1: "js_gt0 (rating_sum ?b)" by (simp add: sb)
  have h2: "length ?b < 2 ^ 32" by simp
  have h3: "list_all rating_in_range ?b" by (simp add: rating_in_range_def)
  have d: "js_div (Fin 12) (js_mul (Fin 3) (Fin 5)) = Fin (7205759403792794 / 2 ^ 53)"
    by (simp add: fl_def ilog2_def bitlen_pos pow2_def round_half_even_def Let_def)
  have m: "js_mul (Fin (7205759403792794 / 2 ^ 53)) (Fin 5) = Fin 4"
    by (simp add: fl_def ilog2_def bitlen_pos pow2_def round_half_even_def Let_def)
  have av: "js_mul (js_div (rating_sum ?b) (js_mul (Fin (of_nat (length ?b))) (Fin 5))) (Fin 5) = Fin 4"
    using d m by (simp add: sb)
  have f: "two_decimals 4 = ''4.00''" by (simp add: two_decimals_def num_eval Let_def)
  note ta = getProductReviews_summary [of ?a]
  note tb = getProductReviews_summary [of ?b]
  from ta sa have ra: "averageRating (getProductReviews ?a) = JNum (Fin 0)" by blast
  from tb h1 h2 h3 obtain q
    where q: "js_mul (js_div (rating_sum ?b) (js_mul (Fin (of_nat (length ?b))) (Fin 5))) (Fin 5) = Fin q"
             "averageRating (getProductReviews ?b) = JStr (two_decimals q)"
    by blast
  from q(1) av have "q = 4" by simp
  with q(2) f have rb: "averageRating (getProductReviews ?b) = JStr ''4.00''" by simp
  from ta have fa: "reviews (getProductReviews ?a) = ?a" "totalReviews (getProductReviews ?a) = length ?a"
    by blast+
  from tb have fb: "reviews (getProductReviews ?b) = ?b" "totalReviews (getProductReviews ?b) = length ?b"
    by blast+
  have "getProductReviews ?a = \<lparr>reviews = ?a, totalReviews = 2, averageRating = JNum (Fin 0)\<rparr>"
    using fa ra by (cases "getProductReviews ?a") simp
  moreover
  have "getProductReviews ?b = \<lparr>reviews = ?b, totalReviews = 3, averageRating = JStr ''4.00''\<rparr>"
    using fb rb by (cases "getProductReviews ?b") simp
  ultimately show ?thesis using sa h1 h2 h3 by blast
qed

text \<open>
  C10. \<open>getAverageRating\<close> is a total function of the list. For a list of fewer than
  \<open>2\<^sup>3\<^sup>2\<close> records, which every JavaScript array is, its result is neither the Number NaN
  nor the string \<^verbatim>\<open>NaN\<close>. A record whose rating is missing, zero or otherwise falsy leaves
  the rating sum as it is without that record, and is still counted in the denominator,
  the length of the whole list. When no record has a truthy rating the result is the Number
  \<open>0\<close>.
\<close>

theorem getAverageRating_total:
  "(length rs < 2 ^ 32 \<longrightarrow>
      getAverageRating rs \<noteq> JNum NaN \<and> getAverageRating rs \<noteq> JStr ''NaN'')
   \<and> (falsy_rating r \<longrightarrow>
        rating_sum (xs @ r # ys) = rating_sum (xs @ ys)
        \<and> getAverageRating (xs @ r # ys) =
            (if js_gt0 (rating_sum (xs @ ys))
             then JStr (toFixed 2
                    (js_mul (js_div (rating_sum (xs @ ys))
                                    (js_mul (Fin (of_nat (length (xs @ ys) + 1))) (Fin 5)))
                            (Fin 5)))
             else JNum (Fin 0)))
   \<and> ((\<forall>r \<in> set rs. falsy_rating r) \<longrightarrow> getAverageRating rs = JNum (Fin 0))"
proof (intro conjI impI)
  assume len: "length rs < 2 ^ 32"
  show "getAverageRating rs \<noteq> JNum NaN"
    by (simp add: getAverageRating_formula)
  show "getAverageRating rs \<noteq> JStr ''NaN''"
  proof (cases "js_gt0 (rating_sum rs)")
    case True
    then have "rs \<noteq> []" by (auto simp add: rating_sum_Nil)
    then have "0 < length rs" by simp
    from average_not_NaN [OF True this len]
    have "toFixed 2 (js_mul (js_div (rating_sum rs) (js_mul (Fin (of_nat (length rs))) (Fin 5))) (Fin 5))
            \<noteq> ''NaN''"
      by (rule toFixed_not_NaN)
    with True show ?thesis by (simp add: getAverageRating_formula)
  next
    case False
    then show ?thesis by (simp add: getAverageRating_formula)
  qed
next
  assume f: "falsy_rating r"
  show "rating_sum (xs @ r # ys) = rating_sum (xs @ ys)"
    using f by (rule rating_sum_skip)
  show "getAverageRating (xs @ r # ys) =
            (if js_gt0 (rating_sum (xs @ ys))
             then JStr (toFixed 2
                    (js_mul (js_div (rating_sum (xs @ ys))
                                    (js_mul (Fin (of_nat (length (xs @ ys) + 1))) (Fin 5)))
                            (Fin 5)))
             else JNum (Fin 0))"
    by (simp add: getAverageRating_formula rating_sum_skip [OF f])
next
  assume "\<forall>r \<in> set rs. falsy_rating r"
  then have "rating_sum rs = Fin 0" by (rule rating_sum_all_falsy)
  then show "getAverageRating rs = JNum (Fin 0)" by (simp add: getAverageRating_formula)
qed

theorem getAverageRating_total_witness:
  "length [\<lparr>product_external_id = ''p1'', rating = None\<rparr>,
           \<lparr>product_external_id = ''p1'', rating = Some (Fin 0)\<rparr>] < 2 ^ 32
   \<and> falsy_rating \<lparr>product_external_id = ''p1'', rating = None\<rparr>
   \<and> falsy_rating \<lparr>product_external_id = ''p1'', rating = Some (Fin 0)\<rparr>
   \<and> getAverageRating [\<lparr>product_external_id = ''p1'', rating = None\<rparr>,
                       \<lparr>product_external_id = ''p1'', rating = Some (Fin 0)\<rparr>] = JNum (Fin 0)
   \<and> getAverageRating [\<lparr>product_external_id = ''p1'', rating = Some (Fin 5)\<rparr>,
                       \<lparr>product_external_id = ''p1'', rating = None\<rparr>] = JStr ''2.50''"
proof -
  let ?n = "\<lparr>product_external_id = ''p1'', rating = None\<rparr>"
  let ?z = "\<lparr>product_external_id = ''p1'', rating = Some (Fin 0)\<rparr>"
  let ?five = "\<lparr>product_external_id = ''p1'', rating = Some (Fin 5)\<rparr>"
  have h1: "length [?n, ?z] < 2 ^ 32" by simp
  have h2: "\<forall>r \<in> set [?n, ?z]. falsy_rating r" by (simp add: falsy_rating_def)
  have h3: "falsy_rating ?n" by (simp add: falsy_rating_def)
  note t = getAverageRating_total [of "[?n, ?z]" ?n "[?five]" "[]"]
  from t h2 have a: "getAverageRating [?n, ?z] = JNum (Fin 0)" by blast
  have s: "rating_sum ([?five] @ []) = Fin 5" by (simp add: rating_sum_def counted_ratings_def)
  have d: "js_div (Fin 5) (js_mul (Fin (of_nat (length ([?five] @ []) + 1))) (Fin 5)) = Fin (1 / 2)"
    by (simp add: fl_def ilog2_def bitlen_pos pow2_def round_half_even_def Let_def)
  have m: "js_mul (Fin (1 / 2)) (Fin 5) = Fin (5 / 2)"
    by (simp add: fl_def ilog2_def bitlen_pos pow2_def round_half_even_def Let_def)
  have f: "toFixed 2 (Fin (5 / 2)) = ''2.50''" by (simp add: toFixed_def num_eval Let_def)
  from t h3 have "getAverageRating ([?five] @ ?n # []) =
            (if js_gt0 (rating_sum ([?five] @ []))
             then JStr (toFixed 2
                    (js_mul (js_div (rating_sum ([?five] @ []))
                                    (js_mul (Fin (of_nat (length ([?five] @ []) + 1))) (Fin 5)))
                            (Fin 5)))
             else JNum (Fin 0))"
    by blast
  then have "getAverageRating ([?five] @ ?n # []) = JStr ''2.50''"
    by (simp only: s d m f js_gt0.simps) simp
  then have b: "getAverageRating [?five, ?n] = JStr ''2.50''" by simp
  have h4: "falsy_rating ?z" by (simp add: falsy_rating_def)
  from h1 h3 h4 a b show ?thesis by blast
qed

end
